theory Spec2Isabelle
  imports Main "HOL-Library.Word"
begin

unbundle bit_operations_syntax

section \<open>Data model of pages.c\<close>

text \<open>
  The simulator keeps four globals: the byte array \<open>RAM\<close>, the two-level
  \<open>page_table\<close>, the bitmap \<open>phys_pages_used\<close> and the counters \<open>stats\<close>.
  They are gathered in the record \<open>vm\<close> and threaded through every function.
  Fixed-width unsigned C integers are words; a C \<open>int\<close> is an \<open>int\<close> (the
  program only ever stores \<open>-1\<close> or a frame number below 256 in one, see
  \<open>reachable_frames_in_range\<close>). C arrays are total maps from the index;
  every index the code computes is masked or range checked first. What the code
  prints to \<open>stdout\<close> and \<open>stderr\<close> is left out.
\<close>

type_synonym u8 = "8 word"
type_synonym u16 = "16 word"
type_synonym u32 = "32 word"

definition RAM_SIZE :: nat where
  "RAM_SIZE = 2 ^ 20"

definition PAGE_SIZE :: nat where
  "PAGE_SIZE = 4096"

definition NUM_PHYS_PAGES :: nat where
  "NUM_PHYS_PAGES = RAM_SIZE div PAGE_SIZE"

definition L1_ENTRIES :: nat where
  "L1_ENTRIES = 16"

definition L2_ENTRIES :: nat where
  "L2_ENTRIES = 16"

definition PTE_VALID :: u8 where
  "PTE_VALID = 0x01"

definition PTE_WRITE :: u8 where
  "PTE_WRITE = 0x02"

definition PTE_READ :: u8 where
  "PTE_READ = 0x04"

record L2Entry =
  phys_page :: int
  flags :: u8

text \<open>\<open>L2Table\<close> is the array \<open>entries[L2_ENTRIES]\<close>; \<open>L1Table\<close> is the array
  \<open>tables[L1_ENTRIES]\<close> of owning pointers, \<open>None\<close> for \<open>NULL\<close>. Each table is
  reached from exactly one slot, so the pointee is stored in the slot.\<close>

type_synonym L2Table = "nat \<Rightarrow> L2Entry"
type_synonym L1Table = "nat \<Rightarrow> L2Table option"

record VMStats =
  page_faults :: u32
  reads :: u32
  writes :: u32
  translation_failures :: u32

record vm =
  RAM :: "nat \<Rightarrow> u8"
  page_table :: L1Table
  phys_pages_used :: "nat \<Rightarrow> bool"
  stats :: VMStats

text \<open>The state at program start: C zero-initialises globals.\<close>

definition vm0 :: vm where
  "vm0 = \<lparr>RAM = (\<lambda>_. 0), page_table = (\<lambda>_. None), phys_pages_used = (\<lambda>_. False),
          stats = \<lparr>page_faults = 0, reads = 0, writes = 0, translation_failures = 0\<rparr>\<rparr>"

section \<open>Operations\<close>

text \<open>\<open>init_vm\<close>: three \<open>memset\<close>s; \<open>RAM\<close> is not touched.\<close>

definition init_vm :: "vm \<Rightarrow> vm" where
  "init_vm s = s\<lparr>page_table := (\<lambda>_. None), phys_pages_used := (\<lambda>_. False),
                 stats := \<lparr>page_faults = 0, reads = 0, writes = 0, translation_failures = 0\<rparr>\<rparr>"

text \<open>
  \<open>allocate_L2\<close>. The argument is what \<open>malloc\<close> returned: \<open>None\<close> for \<open>NULL\<close>,
  otherwise the fresh block with whatever it contained. The loop sets each of the
  \<open>L2_ENTRIES\<close> entries to frame \<open>-1\<close>, flags \<open>0\<close>.
\<close>

definition allocate_L2 :: "L2Table option \<Rightarrow> L2Table option" where
  "allocate_L2 m =
     (case m of
        None \<Rightarrow> None
      | Some t \<Rightarrow> Some (fold (\<lambda>i t. t(i := \<lparr>phys_page = -1, flags = 0\<rparr>)) [0..<L2_ENTRIES] t))"

definition memset :: "(nat \<Rightarrow> u8) \<Rightarrow> nat \<Rightarrow> u8 \<Rightarrow> nat \<Rightarrow> (nat \<Rightarrow> u8)" where
  "memset mem start c n = (\<lambda>a. if start \<le> a \<and> a < start + n then c else mem a)"

text \<open>\<open>allocate_phys_page\<close>: the \<open>for\<close> loop from index \<open>i\<close> on; \<open>-1\<close> when it
  runs off the end.\<close>

function alloc_scan :: "vm \<Rightarrow> nat \<Rightarrow> int \<times> vm" where
  "alloc_scan s i =
     (if i < NUM_PHYS_PAGES then
        (if \<not> phys_pages_used s i then
           (int i, s\<lparr>RAM := memset (RAM s) (i * PAGE_SIZE) 0 PAGE_SIZE,
                     phys_pages_used := (phys_pages_used s)(i := True)\<rparr>)
         else alloc_scan s (i + 1))
      else (-1, s))"
  by pat_completeness auto
termination
  by (relation "measure (\<lambda>(s, i). NUM_PHYS_PAGES - i)") auto

declare alloc_scan.simps [simp del]

definition allocate_phys_page :: "vm \<Rightarrow> int \<times> vm" where
  "allocate_phys_page s = alloc_scan s 0"

definition free_phys_page :: "vm \<Rightarrow> int \<Rightarrow> vm" where
  "free_phys_page s pp =
     (if pp \<ge> 0 \<and> pp < int NUM_PHYS_PAGES
      then s\<lparr>phys_pages_used := (phys_pages_used s)(nat pp := False)\<rparr>
      else s)"

text \<open>\<open>map_page\<close>. \<open>m\<close> is the result of the \<open>malloc\<close> inside \<open>allocate_L2\<close>, should
  the call be made. Returns the C return value and the new state.\<close>

definition map_page :: "vm \<Rightarrow> u16 \<Rightarrow> u16 \<Rightarrow> u8 \<Rightarrow> L2Table option \<Rightarrow> int \<times> vm" where
  "map_page s virt_page pp fl m =
     (if unat virt_page \<ge> L1_ENTRIES * L2_ENTRIES then (-1, s)
      else if unat pp \<ge> NUM_PHYS_PAGES then (-1, s)
      else
        let l1 = unat (drop_bit 4 virt_page AND 0xf);
            l2 = unat (virt_page AND 0xf);
            install = (\<lambda>t. s\<lparr>page_table := (page_table s)
                                  (l1 := Some (t(l2 := \<lparr>phys_page = uint pp, flags = fl OR PTE_VALID\<rparr>))),
                               phys_pages_used := (phys_pages_used s)(unat pp := True)\<rparr>)
        in case page_table s l1 of
             Some t \<Rightarrow> (0, install t)
           | None \<Rightarrow>
               (case allocate_L2 m of
                  None \<Rightarrow> (-1, s)
                | Some t \<Rightarrow> (0, install t)))"

text \<open>
  \<open>translate\<close>. The result names the return site: \<open>Paddr p\<close> is \<open>return 0\<close> with
  \<open>*out_paddr = p\<close>; the other four are the failing returns, none of which writes
  \<open>*out_paddr\<close>. \<open>ret_code\<close> is the C return value of each site.
\<close>

datatype outcome =
    Paddr u32
  | OutOfBounds
  | TranslationMiss
  | PermissionDenied
  | InternalInconsistency

fun ret_code :: "outcome \<Rightarrow> int" where
  "ret_code (Paddr p) = 0"
| "ret_code OutOfBounds = -1"
| "ret_code TranslationMiss = -1"
| "ret_code PermissionDenied = -2"
| "ret_code InternalInconsistency = -1"

fun out_paddr :: "outcome \<Rightarrow> u32 option" where
  "out_paddr (Paddr p) = Some p"
| "out_paddr _ = None"

definition count_failure :: "vm \<Rightarrow> vm" where
  "count_failure s =
     s\<lparr>stats := (stats s)\<lparr>translation_failures := translation_failures (stats s) + 1\<rparr>\<rparr>"

definition translate :: "vm \<Rightarrow> u32 \<Rightarrow> bool \<Rightarrow> outcome \<times> vm" where
  "translate s vaddr is_write =
     (if unat vaddr \<ge> RAM_SIZE then (OutOfBounds, count_failure s)
      else
        let l1 = unat (drop_bit 16 vaddr AND 0xf);
            l2 = unat (drop_bit 12 vaddr AND 0xf);
            off = vaddr AND 0xfff
        in case page_table s l1 of
             None \<Rightarrow> (TranslationMiss, count_failure s)
           | Some t \<Rightarrow>
               let entry = t l2; pp = phys_page entry in
               if pp < 0 \<or> flags entry AND PTE_VALID = 0 then (TranslationMiss, count_failure s)
               else if is_write \<and> flags entry AND PTE_WRITE = 0 then (PermissionDenied, count_failure s)
               else if \<not> is_write \<and> flags entry AND PTE_READ = 0 then (PermissionDenied, count_failure s)
               else
                 let paddr = (word_of_int (pp * int PAGE_SIZE + uint off) :: u32) in
                 if unat paddr \<ge> RAM_SIZE then (InternalInconsistency, count_failure s)
                 else (Paddr paddr, s))"

definition unmap_page :: "vm \<Rightarrow> u16 \<Rightarrow> int \<times> vm" where
  "unmap_page s virt_page =
     (if unat virt_page \<ge> L1_ENTRIES * L2_ENTRIES then (-1, s)
      else
        let l1 = unat (drop_bit 4 virt_page AND 0xf);
            l2 = unat (virt_page AND 0xf)
        in case page_table s l1 of
             None \<Rightarrow> (-1, s)
           | Some t \<Rightarrow>
               let pp = phys_page (t l2);
                   s1 = (if pp \<ge> 0 then free_phys_page s pp else s)
               in (0, s1\<lparr>page_table := (page_table s1)
                            (l1 := Some (t(l2 := \<lparr>phys_page = -1, flags = 0\<rparr>)))\<rparr>))"

definition page_fault_handler :: "vm \<Rightarrow> u16 \<Rightarrow> L2Table option \<Rightarrow> int \<times> vm" where
  "page_fault_handler s virt_page m =
     (let s1 = s\<lparr>stats := (stats s)\<lparr>page_faults := page_faults (stats s) + 1\<rparr>\<rparr>;
          (pp, s2) = allocate_phys_page s1
      in if pp < 0 then (-1, s2)
         else map_page s2 virt_page (word_of_int pp) (PTE_READ OR PTE_WRITE) m)"

text \<open>The tail of \<open>write_vmem\<close> from \<open>if (res != 0)\<close> on: \<open>res\<close> is \<open>0\<close> exactly when
  the last \<open>translate\<close> stored a physical address.\<close>

definition write_finish :: "outcome \<Rightarrow> vm \<Rightarrow> u8 \<Rightarrow> int \<times> vm" where
  "write_finish oc s val =
     (case oc of
        Paddr paddr \<Rightarrow>
          (0, s\<lparr>RAM := (RAM s)(unat paddr := val),
                stats := (stats s)\<lparr>writes := writes (stats s) + 1\<rparr>\<rparr>)
      | _ \<Rightarrow> (-1, s))"

definition write_vmem :: "vm \<Rightarrow> u32 \<Rightarrow> u8 \<Rightarrow> L2Table option \<Rightarrow> int \<times> vm" where
  "write_vmem s vaddr val m =
     (let (oc, s1) = translate s vaddr True in
      if ret_code oc = -1 then
        let virt_page = (ucast (drop_bit 12 vaddr) :: u16);
            (h, s2) = page_fault_handler s1 virt_page m
        in if h \<noteq> 0 then (-1, s2)
           else let (oc2, s3) = translate s2 vaddr True in write_finish oc2 s3 val
      else write_finish oc s1 val)"

text \<open>\<open>read_vmem\<close> also returns what it stored in \<open>*out\<close>, if anything.\<close>

definition read_finish :: "outcome \<Rightarrow> vm \<Rightarrow> int \<times> u8 option \<times> vm" where
  "read_finish oc s =
     (case oc of
        Paddr paddr \<Rightarrow>
          (0, Some (RAM s (unat paddr)),
           s\<lparr>stats := (stats s)\<lparr>reads := reads (stats s) + 1\<rparr>\<rparr>)
      | _ \<Rightarrow> (-1, None, s))"

definition read_vmem :: "vm \<Rightarrow> u32 \<Rightarrow> L2Table option \<Rightarrow> int \<times> u8 option \<times> vm" where
  "read_vmem s vaddr m =
     (let (oc, s1) = translate s vaddr False in
      if ret_code oc = -1 then
        let virt_page = (ucast (drop_bit 12 vaddr) :: u16);
            (h, s2) = page_fault_handler s1 virt_page m
        in if h \<noteq> 0 then (-1, None, s2)
           else let (oc2, s3) = translate s2 vaddr False in read_finish oc2 s3
      else read_finish oc s1)"

definition free_pages :: "vm \<Rightarrow> vm" where
  "free_pages s =
     s\<lparr>page_table :=
         fold (\<lambda>i pt. case pt i of None \<Rightarrow> pt | Some t \<Rightarrow> pt(i := None)) [0..<L1_ENTRIES]
           (page_table s)\<rparr>"

section \<open>The public operations as a transition system\<close>

datatype op =
    InitVm
  | MapPage u16 u16 u8 "L2Table option"
  | UnmapPage u16
  | ReadVmem u32 "L2Table option"
  | WriteVmem u32 u8 "L2Table option"
  | Translate u32 bool
  | FreePages

fun exec :: "vm \<Rightarrow> op \<Rightarrow> vm" where
  "exec s InitVm = init_vm s"
| "exec s (MapPage v f fl m) = snd (map_page s v f fl m)"
| "exec s (UnmapPage v) = snd (unmap_page s v)"
| "exec s (ReadVmem a m) = snd (snd (read_vmem s a m))"
| "exec s (WriteVmem a b m) = snd (write_vmem s a b m)"
| "exec s (Translate a w) = snd (translate s a w)"
| "exec s FreePages = free_pages s"

inductive reachable :: "vm \<Rightarrow> bool" where
  reachable_init: "reachable (init_vm s)"
| reachable_step: "reachable s \<Longrightarrow> reachable (exec s op)"

section \<open>Vocabulary of the claims\<close>

text \<open>The virtual page containing an address: the address divided by \<open>PAGE_SIZE\<close>.\<close>

definition vpage_of :: "u32 \<Rightarrow> nat" where
  "vpage_of vaddr = unat vaddr div PAGE_SIZE"

text \<open>The page-table entry of virtual page \<open>p\<close>, \<open>None\<close> when the second-level table
  of its first-level slot does not exist: first-level index \<open>p div 16\<close>, second-level
  index \<open>p mod 16\<close>.\<close>

definition entry_at :: "vm \<Rightarrow> nat \<Rightarrow> L2Entry option" where
  "entry_at s p =
     (case page_table s (p div L2_ENTRIES) of
        None \<Rightarrow> None
      | Some t \<Rightarrow> Some (t (p mod L2_ENTRIES)))"

text \<open>A page is unmapped when it has no table, no frame or no \<open>PTE_VALID\<close> bit: the
  condition under which \<open>translate\<close> reports a miss.\<close>

definition unmapped :: "vm \<Rightarrow> nat \<Rightarrow> bool" where
  "unmapped s p =
     (case entry_at s p of
        None \<Rightarrow> True
      | Some e \<Rightarrow> phys_page e < 0 \<or> flags e AND PTE_VALID = 0)"

text \<open>A page is mapped read-write when its entry holds a frame below
  \<open>NUM_PHYS_PAGES\<close> and has all three flag bits.\<close>

definition mapped_rw :: "vm \<Rightarrow> nat \<Rightarrow> bool" where
  "mapped_rw s p =
     (case entry_at s p of
        None \<Rightarrow> False
      | Some e \<Rightarrow> 0 \<le> phys_page e \<and> phys_page e < int NUM_PHYS_PAGES \<and>
          flags e AND PTE_VALID \<noteq> 0 \<and> flags e AND PTE_WRITE \<noteq> 0 \<and> flags e AND PTE_READ \<noteq> 0)"

text \<open>A read or write of an address inside page \<open>p\<close>.\<close>

fun access_in_page :: "nat \<Rightarrow> op \<Rightarrow> bool" where
  "access_in_page p (ReadVmem a m) = (vpage_of a = p)"
| "access_in_page p (WriteVmem a b m) = (vpage_of a = p)"
| "access_in_page p _ = False"

text \<open>Every frame number stored in an existing second-level table is below
  \<open>NUM_PHYS_PAGES\<close>.\<close>

definition frames_in_range :: "vm \<Rightarrow> bool" where
  "frames_in_range s =
     (\<forall>l1 t l2. page_table s l1 = Some t \<and> l2 < L2_ENTRIES \<longrightarrow>
        phys_page (t l2) < int NUM_PHYS_PAGES)"

text \<open>One operation adds at most 1 to \<open>page_faults\<close>, \<open>reads\<close> and \<open>writes\<close> and at most
  2 to \<open>translation_failures\<close>, in 32-bit arithmetic.\<close>

definition stats_step :: "VMStats \<Rightarrow> VMStats \<Rightarrow> bool" where
  "stats_step a b =
     ((page_faults b = page_faults a \<or> page_faults b = page_faults a + 1) \<and>
      (reads b = reads a \<or> reads b = reads a + 1) \<and>
      (writes b = writes a \<or> writes b = writes a + 1) \<and>
      (translation_failures b = translation_failures a \<or>
       translation_failures b = translation_failures a + 1 \<or>
       translation_failures b = translation_failures a + 2))"

text \<open>A block as \<open>malloc\<close> may hand it out, with arbitrary contents; used in the
  worked examples.\<close>

definition junk_block :: L2Table where
  "junk_block = (\<lambda>_. \<lparr>phys_page = 7, flags = 0xff\<rparr>)"

text \<open>The state after \<open>n\<close> calls \<open>translate(0x100000, false)\<close> from program start; each
  fails, the address being out of range.\<close>

definition failed_lookups :: "nat \<Rightarrow> vm" where
  "failed_lookups n = ((\<lambda>s. exec s (Translate 0x100000 False)) ^^ n) vm0"

section \<open>Auxiliary lemmas\<close>

lemmas size_defs = RAM_SIZE_def PAGE_SIZE_def NUM_PHYS_PAGES_def L1_ENTRIES_def L2_ENTRIES_def

lemmas flag_defs = PTE_VALID_def PTE_WRITE_def PTE_READ_def

subsection \<open>Return codes of \<open>translate\<close>\<close>

lemma ret_code_zero_iff: "ret_code oc = 0 \<longleftrightarrow> (\<exists>p. oc = Paddr p)"
  by (cases oc) simp_all

lemma out_paddr_None_iff: "out_paddr oc = None \<longleftrightarrow> ret_code oc \<noteq> 0"
  by (cases oc) simp_all

subsection \<open>Address decomposition\<close>

lemma and_f_mask: "(0xf :: 'a::len word) = mask 4"
  by (simp add: mask_eq_exp_minus_1)

lemma and_fff_mask: "(0xfff :: 'a::len word) = mask 12"
  by (simp add: mask_eq_exp_minus_1)

lemmas bitdec = unat_drop_bit_eq drop_bit_eq_div take_bit_eq_mod unsigned_take_bit_eq
  unat_div unat_mod uint_mod uint_div

lemma l1_of_vaddr: "unat (drop_bit 16 (v::u32) AND 0xf) = (unat v div 65536) mod 16"
  by (simp add: and_f_mask bitdec flip: take_bit_eq_mask)

lemma l2_of_vaddr: "unat (drop_bit 12 (v::u32) AND 0xf) = (unat v div 4096) mod 16"
  by (simp add: and_f_mask bitdec flip: take_bit_eq_mask)

lemma off_of_vaddr: "uint ((v::u32) AND 0xfff) = int (unat v mod 4096)"
  by (simp add: and_fff_mask bitdec zmod_int flip: take_bit_eq_mask)

lemma l1_of_vpage: "unat (drop_bit 4 (p::u16) AND 0xf) = (unat p div 16) mod 16"
  by (simp add: and_f_mask bitdec flip: take_bit_eq_mask)

lemma l2_of_vpage: "unat ((p::u16) AND 0xf) = unat p mod 16"
  by (simp add: and_f_mask bitdec flip: take_bit_eq_mask)

lemma vpage_of_vaddr: "unat (ucast (drop_bit 12 (v::u32)) :: u16) = (unat v div 4096) mod 65536"
  by (simp add: bitdec unsigned_ucast_eq)

lemma fold_upd: "(fold (\<lambda>i t. t(i := c)) xs t) j = (if j \<in> set xs then c else t j)"
  by (induction xs arbitrary: t) auto

subsection \<open>The frame allocator's scan\<close>

lemma alloc_scan_spec:
  "i \<le> j \<Longrightarrow> j < NUM_PHYS_PAGES \<Longrightarrow> \<not> phys_pages_used s j \<Longrightarrow> (\<forall>k. i \<le> k \<and> k < j \<longrightarrow> phys_pages_used s k) \<Longrightarrow>
   alloc_scan s i = (int j, s\<lparr>RAM := memset (RAM s) (j * PAGE_SIZE) 0 PAGE_SIZE,
                     phys_pages_used := (phys_pages_used s)(j := True)\<rparr>)"
proof (induction s i rule: alloc_scan.induct)
  case (1 s i)
  show ?case
  proof (cases "i = j")
    case True
    with 1 show ?thesis by (subst alloc_scan.simps) simp
  next
    case False
    with 1 have u: "phys_pages_used s i" and lt: "i < NUM_PHYS_PAGES" "i + 1 \<le> j" by auto
    have a: "alloc_scan s i = alloc_scan s (i + 1)"
      using u lt by (subst alloc_scan.simps) simp
    have b: "alloc_scan s (i + 1) = (int j, s\<lparr>RAM := memset (RAM s) (j * PAGE_SIZE) 0 PAGE_SIZE,
                     phys_pages_used := (phys_pages_used s)(j := True)\<rparr>)"
      using 1 u lt by (intro "1.IH") auto
    show ?thesis by (rule trans [OF a b])
  qed
qed

lemma alloc_scan_full:
  "(\<forall>k. i \<le> k \<and> k < NUM_PHYS_PAGES \<longrightarrow> phys_pages_used s k) \<Longrightarrow> alloc_scan s i = (-1, s)"
proof (induction s i rule: alloc_scan.induct)
  case (1 s i)
  show ?case
  proof (cases "i < NUM_PHYS_PAGES")
    case True
    with 1 have u: "phys_pages_used s i" by auto
    have a: "alloc_scan s i = alloc_scan s (i + 1)"
      using u True by (subst alloc_scan.simps) simp
    have b: "alloc_scan s (i + 1) = (-1, s)"
      using 1 u True by (intro "1.IH") auto
    show ?thesis by (rule trans [OF a b])
  next
    case False
    then show ?thesis by (subst alloc_scan.simps) simp
  qed
qed

lemma allocate_phys_page_lowest:
  assumes "j < NUM_PHYS_PAGES" "\<not> phys_pages_used s j" "\<forall>k<j. phys_pages_used s k"
  shows "allocate_phys_page s =
           (int j, s\<lparr>RAM := memset (RAM s) (j * PAGE_SIZE) 0 PAGE_SIZE,
                      phys_pages_used := (phys_pages_used s)(j := True)\<rparr>)"
  unfolding allocate_phys_page_def by (rule alloc_scan_spec) (use assms in auto)

lemma allocate_phys_page_exhausted:
  assumes "\<forall>k<NUM_PHYS_PAGES. phys_pages_used s k"
  shows "allocate_phys_page s = (-1, s)"
  unfolding allocate_phys_page_def by (rule alloc_scan_full) (use assms in auto)

lemma lowest_free_exists:
  assumes "i < NUM_PHYS_PAGES" "\<not> phys_pages_used s i"
  shows "(LEAST j. \<not> phys_pages_used s j) < NUM_PHYS_PAGES \<and>
         \<not> phys_pages_used s (LEAST j. \<not> phys_pages_used s j) \<and>
         (\<forall>k<(LEAST j. \<not> phys_pages_used s j). phys_pages_used s k)"
proof -
  define P where "P = (\<lambda>j. \<not> phys_pages_used s j)"
  have Pi: "P i" using assms(2) by (simp add: P_def)
  have 1: "P (Least P)" using LeastI [of P i] Pi by simp
  have 2: "Least P \<le> i" using Least_le [of P i] Pi by simp
  have 3: "\<forall>k<Least P. \<not> P k"
  proof (intro allI impI)
    fix k assume "k < Least P"
    then show "\<not> P k" by (rule not_less_Least)
  qed
  have "Least P < NUM_PHYS_PAGES \<and> P (Least P) \<and> (\<forall>k<Least P. \<not> P k)"
    using 1 2 3 assms(1) by auto
  then show ?thesis unfolding P_def by blast
qed

subsection \<open>Translation, mapping and access to a mapped page\<close>

lemma translate_eq:
  assumes "unat vaddr < RAM_SIZE"
  shows "translate s vaddr w =
    (case entry_at s (vpage_of vaddr) of
       None \<Rightarrow> (TranslationMiss, count_failure s)
     | Some e \<Rightarrow>
        if phys_page e < 0 \<or> flags e AND PTE_VALID = 0 then (TranslationMiss, count_failure s)
        else if w \<and> flags e AND PTE_WRITE = 0 then (PermissionDenied, count_failure s)
        else if \<not> w \<and> flags e AND PTE_READ = 0 then (PermissionDenied, count_failure s)
        else if unat (word_of_int (phys_page e * 4096 + int (unat vaddr mod 4096)) :: u32) \<ge> RAM_SIZE
             then (InternalInconsistency, count_failure s)
             else (Paddr (word_of_int (phys_page e * 4096 + int (unat vaddr mod 4096))), s))"
proof -
  have l1: "unat vaddr div 65536 mod 16 = unat vaddr div 4096 div 16"
    using assms by (simp add: size_defs div_mult2_eq [symmetric])
  show ?thesis
    using assms
    by (simp add: translate_def entry_at_def vpage_of_def l1_of_vaddr l2_of_vaddr off_of_vaddr l1
        size_defs Let_def split: option.splits)
qed

lemma translate_oob:
  "unat vaddr \<ge> RAM_SIZE \<Longrightarrow> translate s vaddr w = (OutOfBounds, count_failure s)"
  by (simp add: translate_def)

lemma unat_word_of_int_small:
  "0 \<le> k \<Longrightarrow> k < 4294967296 \<Longrightarrow> unat (word_of_int k :: u32) = nat k"
  by (simp add: unat_eq_nat_uint uint_word_of_int)

lemma paddr_in_range:
  assumes "0 \<le> pp" "pp < 256"
  shows "unat (word_of_int (pp * 4096 + int (unat (vaddr::u32) mod 4096)) :: u32) = nat pp * 4096 + unat vaddr mod 4096"
    and "unat (word_of_int (pp * 4096 + int (unat (vaddr::u32) mod 4096)) :: u32) < RAM_SIZE"
proof -
  have m: "unat vaddr mod 4096 < 4096" by simp
  have b: "pp * 4096 + int (unat vaddr mod 4096) < 1048576" using assms m by linarith
  have nn: "0 \<le> pp * 4096 + int (unat vaddr mod 4096)" using assms by simp
  have "unat (word_of_int (pp * 4096 + int (unat vaddr mod 4096)) :: u32) = nat (pp * 4096 + int (unat vaddr mod 4096))"
    using b nn by (intro unat_word_of_int_small) linarith+
  then show 1: "unat (word_of_int (pp * 4096 + int (unat (vaddr::u32) mod 4096)) :: u32) = nat pp * 4096 + unat vaddr mod 4096"
    using assms by (simp add: nat_add_distrib nat_mult_distrib)
  show "unat (word_of_int (pp * 4096 + int (unat (vaddr::u32) mod 4096)) :: u32) < RAM_SIZE"
    using assms m unfolding 1 by (simp add: size_defs) 
qed


lemma allocate_L2_None [simp]: "allocate_L2 None = None"
  by (simp add: allocate_L2_def)

lemma allocate_L2_Some:
  "\<exists>t. allocate_L2 (Some t0) = Some t \<and> (\<forall>l2<L2_ENTRIES. t l2 = \<lparr>phys_page = -1, flags = 0\<rparr>)"
  by (simp add: allocate_L2_def fold_upd)

lemma allocate_L2_cases:
  "allocate_L2 m = None \<and> m = None \<or>
   (\<exists>t. allocate_L2 m = Some t \<and> m \<noteq> None \<and> (\<forall>l2<L2_ENTRIES. t l2 = \<lparr>phys_page = -1, flags = 0\<rparr>))"
  using allocate_L2_Some by (cases m) auto

lemma map_page_oob:
  "unat v \<ge> L1_ENTRIES * L2_ENTRIES \<or> unat f \<ge> NUM_PHYS_PAGES \<Longrightarrow> map_page s v f fl m = (-1, s)"
  by (auto simp add: map_page_def)

lemma map_page_in_range:
  assumes "unat v < L1_ENTRIES * L2_ENTRIES" "unat f < NUM_PHYS_PAGES"
  shows "map_page s v f fl m =
    (case page_table s (unat v div 16) of
       Some t \<Rightarrow> (0, s\<lparr>page_table := (page_table s)(unat v div 16 :=
                          Some (t(unat v mod 16 := \<lparr>phys_page = uint f, flags = fl OR PTE_VALID\<rparr>))),
                       phys_pages_used := (phys_pages_used s)(unat f := True)\<rparr>)
     | None \<Rightarrow>
        (case allocate_L2 m of
           None \<Rightarrow> (-1, s)
         | Some t \<Rightarrow> (0, s\<lparr>page_table := (page_table s)(unat v div 16 :=
                          Some (t(unat v mod 16 := \<lparr>phys_page = uint f, flags = fl OR PTE_VALID\<rparr>))),
                       phys_pages_used := (phys_pages_used s)(unat f := True)\<rparr>)))"
proof -
  have i1: "unat (drop_bit 4 v AND 0xf) = unat v div 16"
    using l1_of_vpage [of v] assms by (simp add: size_defs)
  have i2: "unat (v AND 0xf) = unat v mod 16"
    by (rule l2_of_vpage)
  have r: "\<not> unat v \<ge> L1_ENTRIES * L2_ENTRIES" "\<not> unat f \<ge> NUM_PHYS_PAGES"
    using assms by simp_all
  show ?thesis
    unfolding map_page_def i1 i2 Let_def if_not_P [OF r(1)] if_not_P [OF r(2)]
    by (simp split: option.splits)
qed


lemma vaddr_in_space: "vpage_of vaddr < 256 \<Longrightarrow> unat vaddr < RAM_SIZE"
  by (simp add: vpage_of_def size_defs) 

lemma translate_mapped:
  assumes "vpage_of vaddr < 256" "entry_at s (vpage_of vaddr) = Some e"
    "0 \<le> phys_page e" "phys_page e < 256" "flags e AND PTE_VALID \<noteq> 0"
    "if w then flags e AND PTE_WRITE \<noteq> 0 else flags e AND PTE_READ \<noteq> 0"
  shows "\<exists>pa. translate s vaddr w = (Paddr pa, s) \<and>
              unat pa = nat (phys_page e) * 4096 + unat vaddr mod 4096"
proof -
  let ?pa = "word_of_int (phys_page e * 4096 + int (unat vaddr mod 4096)) :: u32"
  have r: "unat vaddr < RAM_SIZE" using assms(1) by (rule vaddr_in_space)
  have b: "\<not> RAM_SIZE \<le> unat ?pa"
    using paddr_in_range(2) [OF assms(3,4), of vaddr] by simp
  have "translate s vaddr w = (Paddr ?pa, s)"
    unfolding translate_eq [OF r] using assms(2-6) b by (simp split: if_splits)
  with paddr_in_range(1) [OF assms(3,4), of vaddr] show ?thesis by blast
qed

lemma write_vmem_mapped:
  assumes "vpage_of vaddr < 256" "entry_at s (vpage_of vaddr) = Some e"
    "0 \<le> phys_page e" "phys_page e < 256" "flags e AND PTE_VALID \<noteq> 0" "flags e AND PTE_WRITE \<noteq> 0"
  shows "write_vmem s vaddr b m =
           (0, s\<lparr>RAM := (RAM s)(nat (phys_page e) * 4096 + unat vaddr mod 4096 := b),
                 stats := (stats s)\<lparr>writes := writes (stats s) + 1\<rparr>\<rparr>)"
proof -
  obtain pa where t: "translate s vaddr True = (Paddr pa, s)"
    and pa: "unat pa = nat (phys_page e) * 4096 + unat vaddr mod 4096"
    using translate_mapped [OF assms(1-5), of True] assms(6) by auto
  show ?thesis
    unfolding write_vmem_def t by (simp add: write_finish_def pa)
qed

lemma read_vmem_mapped:
  assumes "vpage_of vaddr < 256" "entry_at s (vpage_of vaddr) = Some e"
    "0 \<le> phys_page e" "phys_page e < 256" "flags e AND PTE_VALID \<noteq> 0" "flags e AND PTE_READ \<noteq> 0"
  shows "read_vmem s vaddr m =
           (0, Some (RAM s (nat (phys_page e) * 4096 + unat vaddr mod 4096)),
            s\<lparr>stats := (stats s)\<lparr>reads := reads (stats s) + 1\<rparr>\<rparr>)"
proof -
  obtain pa where t: "translate s vaddr False = (Paddr pa, s)"
    and pa: "unat pa = nat (phys_page e) * 4096 + unat vaddr mod 4096"
    using translate_mapped [OF assms(1-5), of False] assms(6) by auto
  show ?thesis
    unfolding read_vmem_def t by (simp add: read_finish_def pa)
qed

lemma map_page_success_range:
  "map_page s v f fl m = (0, s') \<Longrightarrow> unat v < 256 \<and> unat f < 256"
  by (auto simp add: map_page_def size_defs split: if_splits)

lemma map_page_success:
  assumes "map_page s v f fl m = (0, s')"
  shows "unat v < 256" "unat f < 256"
    "entry_at s' (unat v) = Some \<lparr>phys_page = uint f, flags = fl OR PTE_VALID\<rparr>"
proof -
  show v: "unat v < 256" and f: "unat f < 256"
    using map_page_success_range [OF assms] by simp_all
  have "map_page s v f fl m = (case page_table s (unat v div 16) of
       Some t \<Rightarrow> (0, s\<lparr>page_table := (page_table s)(unat v div 16 :=
                          Some (t(unat v mod 16 := \<lparr>phys_page = uint f, flags = fl OR PTE_VALID\<rparr>))),
                       phys_pages_used := (phys_pages_used s)(unat f := True)\<rparr>)
     | None \<Rightarrow>
        (case allocate_L2 m of
           None \<Rightarrow> (-1, s)
         | Some t \<Rightarrow> (0, s\<lparr>page_table := (page_table s)(unat v div 16 :=
                          Some (t(unat v mod 16 := \<lparr>phys_page = uint f, flags = fl OR PTE_VALID\<rparr>))),
                       phys_pages_used := (phys_pages_used s)(unat f := True)\<rparr>)))"
    using v f by (intro map_page_in_range) (simp_all add: size_defs)
  with assms show "entry_at s' (unat v) = Some \<lparr>phys_page = uint f, flags = fl OR PTE_VALID\<rparr>"
    by (auto simp add: entry_at_def size_defs split: option.splits)
qed

lemma rw_valid_bits:
  "((PTE_READ OR PTE_WRITE) OR PTE_VALID) AND PTE_VALID \<noteq> 0"
  "((PTE_READ OR PTE_WRITE) OR PTE_VALID) AND PTE_WRITE \<noteq> 0"
  "((PTE_READ OR PTE_WRITE) OR PTE_VALID) AND PTE_READ \<noteq> 0"
  by (simp_all add: flag_defs)

subsection \<open>Entries after an installation\<close>

lemma valid_forced:
  "(fl OR PTE_VALID) AND PTE_VALID = PTE_VALID" "(fl OR PTE_VALID) AND fl = fl"
  by (auto simp add: bit_eq_iff bit_and_iff bit_or_iff)

lemma entry_at_install_same:
  "entry_at (s\<lparr>page_table := (page_table s)(p div 16 := Some (t(p mod 16 := e))),
               phys_pages_used := u\<rparr>) p = Some e"
  by (simp add: entry_at_def size_defs)

lemma divmod_neq:
  fixes p q :: nat
  assumes "q \<noteq> p" "q div 16 = p div 16"
  shows "q mod 16 \<noteq> p mod 16"
proof
  assume "q mod 16 = p mod 16"
  with assms(2) have "q div 16 * 16 + q mod 16 = p div 16 * 16 + p mod 16" by simp
  then have "q = p" by simp
  with assms(1) show False by simp
qed

lemma entry_at_install_other:
  assumes "q \<noteq> p"
  shows "entry_at (s\<lparr>page_table := (page_table s)(p div 16 := Some (t(p mod 16 := e))),
               phys_pages_used := u\<rparr>) q =
         (if q div 16 = p div 16 then Some (t (q mod 16)) else entry_at s q)"
proof (cases "q div 16 = p div 16")
  case True
  with divmod_neq [OF assms] have "q mod 16 \<noteq> p mod 16" by simp
  with True show ?thesis by (simp add: entry_at_def size_defs)
next
  case False
  then show ?thesis by (simp add: entry_at_def size_defs)
qed


lemma map_page_installs:
  assumes "unat v < L1_ENTRIES * L2_ENTRIES" "unat f < NUM_PHYS_PAGES"
    "page_table s (unat v div 16) = Some t \<or>
     page_table s (unat v div 16) = None \<and> allocate_L2 m = Some t"
  shows "map_page s v f fl m =
    (0, s\<lparr>page_table := (page_table s)(unat v div 16 :=
               Some (t(unat v mod 16 := \<lparr>phys_page = uint f, flags = fl OR PTE_VALID\<rparr>))),
           phys_pages_used := (phys_pages_used s)(unat f := True)\<rparr>)"
  using assms(3) unfolding map_page_in_range [OF assms(1,2)] by auto

section \<open>Frame allocator\<close>

text \<open>
  Claim C6. \<open>allocate_phys_page\<close> scans the bitmap upwards from 0. If \<open>j\<close> is the
  lowest free frame, it returns \<open>j\<close>, marks \<open>j\<close> used and zero-fills the
  \<open>PAGE_SIZE\<close> bytes of frame \<open>j\<close>, leaving every other byte, every other bitmap
  slot, the page table and the counters alone; such a \<open>j\<close> exists, and is the
  least free index, as soon as any frame below \<open>NUM_PHYS_PAGES\<close> is free. If all
  frames are used it returns \<open>-1\<close> and the state is unchanged.
\<close>

theorem allocate_phys_page_first_free:
  "(j < NUM_PHYS_PAGES \<and> \<not> phys_pages_used s j \<and> (\<forall>k<j. phys_pages_used s k) \<longrightarrow>
      (\<exists>s'. allocate_phys_page s = (int j, s') \<and> phys_pages_used s' j \<and>
         (\<forall>a. j * PAGE_SIZE \<le> a \<and> a < j * PAGE_SIZE + PAGE_SIZE \<longrightarrow> RAM s' a = 0) \<and>
         (\<forall>a. \<not> (j * PAGE_SIZE \<le> a \<and> a < j * PAGE_SIZE + PAGE_SIZE) \<longrightarrow> RAM s' a = RAM s a) \<and>
         (\<forall>k. k \<noteq> j \<longrightarrow> phys_pages_used s' k = phys_pages_used s k) \<and>
         page_table s' = page_table s \<and> stats s' = stats s))
   \<and> ((\<exists>i<NUM_PHYS_PAGES. \<not> phys_pages_used s i) \<longrightarrow>
        fst (allocate_phys_page s) = int (LEAST j. \<not> phys_pages_used s j) \<and>
        (LEAST j. \<not> phys_pages_used s j) < NUM_PHYS_PAGES)
   \<and> ((\<forall>k<NUM_PHYS_PAGES. phys_pages_used s k) \<longrightarrow> allocate_phys_page s = (-1, s))"
proof (intro conjI impI)
  assume h: "j < NUM_PHYS_PAGES \<and> \<not> phys_pages_used s j \<and> (\<forall>k<j. phys_pages_used s k)"
  then have "allocate_phys_page s =
           (int j, s\<lparr>RAM := memset (RAM s) (j * PAGE_SIZE) 0 PAGE_SIZE,
                      phys_pages_used := (phys_pages_used s)(j := True)\<rparr>)"
    by (intro allocate_phys_page_lowest) auto
  then show "\<exists>s'. allocate_phys_page s = (int j, s') \<and> phys_pages_used s' j \<and>
         (\<forall>a. j * PAGE_SIZE \<le> a \<and> a < j * PAGE_SIZE + PAGE_SIZE \<longrightarrow> RAM s' a = 0) \<and>
         (\<forall>a. \<not> (j * PAGE_SIZE \<le> a \<and> a < j * PAGE_SIZE + PAGE_SIZE) \<longrightarrow> RAM s' a = RAM s a) \<and>
         (\<forall>k. k \<noteq> j \<longrightarrow> phys_pages_used s' k = phys_pages_used s k) \<and>
         page_table s' = page_table s \<and> stats s' = stats s"
    by (simp add: memset_def)
next
  assume "\<exists>i<NUM_PHYS_PAGES. \<not> phys_pages_used s i"
  then obtain i where i: "i < NUM_PHYS_PAGES" "\<not> phys_pages_used s i" by blast
  define l where "l = (LEAST j. \<not> phys_pages_used s j)"
  from lowest_free_exists [OF i]
  have l: "l < NUM_PHYS_PAGES" "\<not> phys_pages_used s l" "\<forall>k<l. phys_pages_used s k"
    unfolding l_def by blast+
  from allocate_phys_page_lowest [OF l] have r: "fst (allocate_phys_page s) = int l" by simp
  show "fst (allocate_phys_page s) = int (LEAST j. \<not> phys_pages_used s j)"
    using r unfolding l_def .
  show "(LEAST j. \<not> phys_pages_used s j) < NUM_PHYS_PAGES"
    using l(1) unfolding l_def .
next
  assume "\<forall>k<NUM_PHYS_PAGES. phys_pages_used s k"
  then show "allocate_phys_page s = (-1, s)" by (rule allocate_phys_page_exhausted)
qed

theorem allocate_phys_page_first_free_witness:
  "fst (allocate_phys_page (vm0\<lparr>phys_pages_used := (\<lambda>i. i < 3)\<rparr>)) = 3 \<and>
   phys_pages_used (snd (allocate_phys_page (vm0\<lparr>phys_pages_used := (\<lambda>i. i < 3)\<rparr>))) 3 \<and>
   fst (allocate_phys_page (vm0\<lparr>phys_pages_used := (\<lambda>i. i < 3)\<rparr>)) =
     int (LEAST j. \<not> phys_pages_used (vm0\<lparr>phys_pages_used := (\<lambda>i. i < 3)\<rparr>) j) \<and>
   fst (allocate_phys_page (vm0\<lparr>phys_pages_used := (\<lambda>_. True)\<rparr>)) = -1"
proof -
  let ?s = "vm0\<lparr>phys_pages_used := (\<lambda>i. i < 3)\<rparr>"
  have "fst (allocate_phys_page ?s) = 3 \<and> phys_pages_used (snd (allocate_phys_page ?s)) 3"
    using allocate_phys_page_first_free [of 3 ?s, THEN conjunct1]
    by (auto simp add: size_defs)
  moreover have "\<exists>i<NUM_PHYS_PAGES. \<not> phys_pages_used ?s i"
    by (rule exI [of _ 3]) (simp add: size_defs)
  with allocate_phys_page_first_free [of 0 ?s, THEN conjunct2, THEN conjunct1]
  have "fst (allocate_phys_page ?s) = int (LEAST j. \<not> phys_pages_used ?s j)"
    by blast
  moreover have "fst (allocate_phys_page (vm0\<lparr>phys_pages_used := (\<lambda>_. True)\<rparr>)) = -1"
    using allocate_phys_page_first_free [of 0 "vm0\<lparr>phys_pages_used := (\<lambda>_. True)\<rparr>", THEN conjunct2, THEN conjunct2]
    by simp
  ultimately show ?thesis by blast
qed

section \<open>Mapping\<close>

text \<open>
  Claim C7, as the code has it. \<open>map_page\<close> returns \<open>-1\<close> and changes nothing when
  the virtual page is not below \<open>L1_ENTRIES * L2_ENTRIES\<close> or the frame is not below
  \<open>NUM_PHYS_PAGES\<close>, and also when the second-level table is absent and \<open>malloc\<close>
  returns \<open>NULL\<close>. In every other case it returns \<open>0\<close>; the entry of the page then
  holds frame \<open>f\<close> and the caller's flags with \<open>PTE_VALID\<close> or-ed in, frame \<open>f\<close> is
  marked used whatever it was before, no other bitmap slot, no byte of \<open>RAM\<close> and no
  counter changes, and every other page keeps its entry (or, when its table was
  created by this call, gets the unmapped entry \<open>(-1, 0)\<close>).
\<close>

theorem map_page_spec:
  "(unat v \<ge> L1_ENTRIES * L2_ENTRIES \<or> unat f \<ge> NUM_PHYS_PAGES \<longrightarrow> map_page s v f fl m = (-1, s)) \<and>
   (unat v < L1_ENTRIES * L2_ENTRIES \<and> unat f < NUM_PHYS_PAGES \<and>
    page_table s (unat v div L2_ENTRIES) = None \<and> m = None \<longrightarrow> map_page s v f fl m = (-1, s)) \<and>
   (unat v < L1_ENTRIES * L2_ENTRIES \<and> unat f < NUM_PHYS_PAGES \<and>
    (page_table s (unat v div L2_ENTRIES) \<noteq> None \<or> m \<noteq> None) \<longrightarrow>
      (\<exists>s'. map_page s v f fl m = (0, s') \<and>
         entry_at s' (unat v) = Some \<lparr>phys_page = uint f, flags = fl OR PTE_VALID\<rparr> \<and>
         (fl OR PTE_VALID) AND PTE_VALID = PTE_VALID \<and> (fl OR PTE_VALID) AND fl = fl \<and>
         phys_pages_used s' (unat f) \<and>
         (\<forall>k. k \<noteq> unat f \<longrightarrow> phys_pages_used s' k = phys_pages_used s k) \<and>
         (\<forall>q. q < L1_ENTRIES * L2_ENTRIES \<and> q \<noteq> unat v \<longrightarrow>
              entry_at s' q = entry_at s q \<or>
              entry_at s q = None \<and> entry_at s' q = Some \<lparr>phys_page = -1, flags = 0\<rparr>) \<and>
         RAM s' = RAM s \<and> stats s' = stats s))"
proof (intro conjI impI)
  assume "unat v \<ge> L1_ENTRIES * L2_ENTRIES \<or> unat f \<ge> NUM_PHYS_PAGES"
  then show "map_page s v f fl m = (-1, s)" by (rule map_page_oob)
next
  assume h: "unat v < L1_ENTRIES * L2_ENTRIES \<and> unat f < NUM_PHYS_PAGES \<and>
    page_table s (unat v div L2_ENTRIES) = None \<and> m = None"
  then have "page_table s (unat v div 16) = None" "allocate_L2 m = None"
    by (simp_all add: size_defs)
  then show "map_page s v f fl m = (-1, s)"
    unfolding map_page_in_range [OF h [THEN conjunct1] h [THEN conjunct2, THEN conjunct1]]
    by simp
next
  assume h: "unat v < L1_ENTRIES * L2_ENTRIES \<and> unat f < NUM_PHYS_PAGES \<and>
    (page_table s (unat v div L2_ENTRIES) \<noteq> None \<or> m \<noteq> None)"
  let ?e = "\<lparr>phys_page = uint f, flags = fl OR PTE_VALID\<rparr>"
  let ?inst = "\<lambda>t. s\<lparr>page_table := (page_table s)(unat v div 16 := Some (t(unat v mod 16 := ?e))),
                     phys_pages_used := (phys_pages_used s)(unat f := True)\<rparr>"
  have "\<exists>t. (page_table s (unat v div 16) = Some t \<or>
              page_table s (unat v div 16) = None \<and> allocate_L2 m = Some t) \<and>
             (\<forall>q. q div 16 = unat v div 16 \<longrightarrow> entry_at s q = Some (t (q mod 16)) \<or>
                  entry_at s q = None \<and> (t (q mod 16)) = \<lparr>phys_page = -1, flags = 0\<rparr>)"
  proof (cases "page_table s (unat v div 16)")
    case (Some t)
    then show ?thesis by (auto simp add: entry_at_def size_defs)
  next
    case None
    with h have "m \<noteq> None" by (simp add: size_defs)
    with allocate_L2_cases [of m] obtain t where
      t: "allocate_L2 m = Some t" "\<forall>l2<L2_ENTRIES. t l2 = \<lparr>phys_page = -1, flags = 0\<rparr>"
      by auto
    have "\<forall>q. q div 16 = unat v div 16 \<longrightarrow>
            entry_at s q = None \<and> (t (q mod 16)) = \<lparr>phys_page = -1, flags = 0\<rparr>"
      using None t(2) by (simp add: entry_at_def size_defs)
    with None t(1) show ?thesis by blast
  qed
  then obtain t where
    t: "page_table s (unat v div 16) = Some t \<or>
        page_table s (unat v div 16) = None \<and> allocate_L2 m = Some t"
    and old: "\<forall>q. q div 16 = unat v div 16 \<longrightarrow> entry_at s q = Some (t (q mod 16)) \<or>
                  entry_at s q = None \<and> (t (q mod 16)) = \<lparr>phys_page = -1, flags = 0\<rparr>"
    by blast
  have 1: "map_page s v f fl m = (0, ?inst t)"
    using h t by (intro map_page_installs) simp_all
  have 2: "entry_at (?inst t) (unat v) = Some ?e"
    by (rule entry_at_install_same)
  have 3: "entry_at (?inst t) q = entry_at s q \<or>
           entry_at s q = None \<and> entry_at (?inst t) q = Some \<lparr>phys_page = -1, flags = 0\<rparr>"
    if "q \<noteq> unat v" for q
    unfolding entry_at_install_other [OF that] using old [rule_format, of q]
    by (cases "q div 16 = unat v div 16") auto
  have 4: "phys_pages_used (?inst t) (unat f)"
    "\<forall>k. k \<noteq> unat f \<longrightarrow> phys_pages_used (?inst t) k = phys_pages_used s k"
    "RAM (?inst t) = RAM s" "stats (?inst t) = stats s"
    by simp_all
  show "\<exists>s'. map_page s v f fl m = (0, s') \<and>
         entry_at s' (unat v) = Some ?e \<and>
         (fl OR PTE_VALID) AND PTE_VALID = PTE_VALID \<and> (fl OR PTE_VALID) AND fl = fl \<and>
         phys_pages_used s' (unat f) \<and>
         (\<forall>k. k \<noteq> unat f \<longrightarrow> phys_pages_used s' k = phys_pages_used s k) \<and>
         (\<forall>q. q < L1_ENTRIES * L2_ENTRIES \<and> q \<noteq> unat v \<longrightarrow>
              entry_at s' q = entry_at s q \<or>
              entry_at s q = None \<and> entry_at s' q = Some \<lparr>phys_page = -1, flags = 0\<rparr>) \<and>
         RAM s' = RAM s \<and> stats s' = stats s"
    apply (rule exI [of _ "?inst t"])
    apply (intro conjI allI impI)
    apply (rule 1, rule 2, rule valid_forced, rule valid_forced, rule 4(1))
    using 4(2) apply blast
    using 3 apply blast
    apply (rule 4(3), rule 4(4))
    done
qed


theorem map_page_spec_witness:
  "map_page vm0 0xFFF 30 (PTE_READ OR PTE_WRITE) None = (-1, vm0) \<and>
   map_page vm0 4 999 (PTE_READ OR PTE_WRITE) None = (-1, vm0) \<and>
   map_page vm0 4 30 (PTE_READ OR PTE_WRITE) None = (-1, vm0) \<and>
   (\<exists>s'. map_page vm0 4 30 (PTE_READ OR PTE_WRITE) (Some junk_block) = (0, s') \<and>
         entry_at s' 4 = Some \<lparr>phys_page = 30, flags = 7\<rparr> \<and> phys_pages_used s' 30)"
proof -
  have 1: "map_page vm0 0xFFF 30 (PTE_READ OR PTE_WRITE) None = (-1, vm0)"
    using map_page_spec [of "0xFFF" 30 vm0 "PTE_READ OR PTE_WRITE" None, THEN conjunct1]
    by (simp add: size_defs)
  have 2: "map_page vm0 4 999 (PTE_READ OR PTE_WRITE) None = (-1, vm0)"
    using map_page_spec [of 4 999 vm0 "PTE_READ OR PTE_WRITE" None, THEN conjunct1]
    by (simp add: size_defs)
  have 3: "map_page vm0 4 30 (PTE_READ OR PTE_WRITE) None = (-1, vm0)"
    using map_page_spec [of 4 30 vm0 "PTE_READ OR PTE_WRITE" None, THEN conjunct2, THEN conjunct1]
    by (simp add: size_defs vm0_def)
  have 4: "\<exists>s'. map_page vm0 4 30 (PTE_READ OR PTE_WRITE) (Some junk_block) = (0, s') \<and>
         entry_at s' 4 = Some \<lparr>phys_page = 30, flags = 7\<rparr> \<and> phys_pages_used s' 30"
    using map_page_spec [of 4 30 vm0 "PTE_READ OR PTE_WRITE" "Some junk_block",
        THEN conjunct2, THEN conjunct2]
    by (simp add: size_defs flag_defs) blast
  from 1 2 3 4 show ?thesis by blast
qed

theorem map_page_malloc_failure_counterexample:
  "unat (4 :: u16) < L1_ENTRIES * L2_ENTRIES \<and> unat (30 :: u16) < NUM_PHYS_PAGES \<and>
   fst (map_page vm0 4 30 (PTE_READ OR PTE_WRITE) None) = -1"
  by (simp add: map_page_in_range size_defs vm0_def)

section \<open>Round trip\<close>

text \<open>
  Claim C5. After \<open>map_page(p, f, PTE_READ | PTE_WRITE)\<close> has returned \<open>0\<close> (which
  forces \<open>p < 256\<close> and \<open>f < 256\<close>), writing byte \<open>b\<close> at any address of page \<open>p\<close>
  returns \<open>0\<close>, and reading the same address afterwards returns \<open>0\<close> and stores \<open>b\<close>.
\<close>

theorem write_then_read_roundtrip:
  assumes "map_page s p f (PTE_READ OR PTE_WRITE) m = (0, s1)" and "vpage_of vaddr = unat p"
  shows "unat p < 256 \<and> unat f < 256 \<and>
         (\<exists>s2 s3. write_vmem s1 vaddr b m1 = (0, s2) \<and> read_vmem s2 vaddr m2 = (0, Some b, s3))"
proof -
  let ?e = "\<lparr>phys_page = uint f, flags = (PTE_READ OR PTE_WRITE) OR PTE_VALID\<rparr>"
  let ?a = "nat (uint f) * 4096 + unat vaddr mod 4096"
  let ?s2 = "s1\<lparr>RAM := (RAM s1)(?a := b), stats := (stats s1)\<lparr>writes := writes (stats s1) + 1\<rparr>\<rparr>"
  note mp = map_page_success [OF assms(1)]
  have pg: "vpage_of vaddr < 256" using mp(1) assms(2) by simp
  have e1: "entry_at s1 (vpage_of vaddr) = Some ?e" using mp(3) assms(2) by simp
  have "uint f < 256" using uint_nat [of f] mp(2) by linarith
  then have fr: "0 \<le> phys_page ?e" "phys_page ?e < 256" by simp_all
  have w: "write_vmem s1 vaddr b m1 = (0, ?s2)"
    using write_vmem_mapped [OF pg e1 fr, of b m1] rw_valid_bits by simp
  have e2: "entry_at ?s2 (vpage_of vaddr) = Some ?e" using e1 by (simp add: entry_at_def)
  have r: "read_vmem ?s2 vaddr m2 = (0, Some (RAM ?s2 ?a), ?s2\<lparr>stats := (stats ?s2)\<lparr>reads := reads (stats ?s2) + 1\<rparr>\<rparr>)"
    using read_vmem_mapped [OF pg e2 fr, of m2] rw_valid_bits by simp
  have "RAM ?s2 ?a = b" by simp
  with w r mp show ?thesis by (metis (no_types, lifting))
qed


theorem write_then_read_roundtrip_witness:
  "map_page vm0 0 10 (PTE_READ OR PTE_WRITE) (Some junk_block) =
     (0, snd (map_page vm0 0 10 (PTE_READ OR PTE_WRITE) (Some junk_block))) \<and>
   vpage_of 0x100 = unat (0 :: u16) \<and>
   (\<exists>s2 s3. write_vmem (snd (map_page vm0 0 10 (PTE_READ OR PTE_WRITE) (Some junk_block))) 0x100 0xAA None = (0, s2) \<and>
            read_vmem s2 0x100 None = (0, Some 0xAA, s3))"
proof -
  have h1: "map_page vm0 0 10 (PTE_READ OR PTE_WRITE) (Some junk_block) =
     (0, snd (map_page vm0 0 10 (PTE_READ OR PTE_WRITE) (Some junk_block)))"
    by (simp add: map_page_in_range size_defs vm0_def allocate_L2_def)
  have h2: "vpage_of 0x100 = unat (0 :: u16)"
    by (simp add: vpage_of_def PAGE_SIZE_def)
  from write_then_read_roundtrip [OF h1 h2, of "0xAA" None None] h1 h2 show ?thesis
    by blast
qed

section \<open>Unmapping\<close>

lemma unmap_page_oob:
  "unat v \<ge> L1_ENTRIES * L2_ENTRIES \<Longrightarrow> unmap_page s v = (-1, s)"
  by (simp add: unmap_page_def)

lemma unmap_page_in_range:
  assumes "unat v < L1_ENTRIES * L2_ENTRIES"
  shows "unmap_page s v =
    (case page_table s (unat v div 16) of
       None \<Rightarrow> (-1, s)
     | Some t \<Rightarrow>
        (0, (if phys_page (t (unat v mod 16)) \<ge> 0 then free_phys_page s (phys_page (t (unat v mod 16))) else s)
             \<lparr>page_table := (page_table s)(unat v div 16 :=
                 Some (t(unat v mod 16 := \<lparr>phys_page = -1, flags = 0\<rparr>)))\<rparr>))"
proof -
  have i1: "unat (drop_bit 4 v AND 0xf) = unat v div 16"
    using l1_of_vpage [of v] assms by (simp add: size_defs)
  have i2: "unat (v AND 0xf) = unat v mod 16"
    by (rule l2_of_vpage)
  have r: "\<not> unat v \<ge> L1_ENTRIES * L2_ENTRIES"
    using assms by simp
  have pt: "page_table (if c then free_phys_page s pp else s) = page_table s" for c pp
    by (simp add: free_phys_page_def)
  show ?thesis
    unfolding unmap_page_def i1 i2 Let_def if_not_P [OF r] pt ..
qed

lemma entry_at_clear_same:
  "entry_at (s\<lparr>page_table := (page_table s0)(p div 16 := Some (t(p mod 16 := e)))\<rparr>) p = Some e"
  by (simp add: entry_at_def size_defs)

lemma entry_at_clear_other:
  assumes "q \<noteq> p" "page_table s0 (p div 16) = Some t"
  shows "entry_at (s\<lparr>page_table := (page_table s0)(p div 16 := Some (t(p mod 16 := e)))\<rparr>) q =
         entry_at s0 q"
proof (cases "q div 16 = p div 16")
  case True
  with divmod_neq [OF assms(1)] have "q mod 16 \<noteq> p mod 16" by simp
  with True assms(2) show ?thesis by (simp add: entry_at_def size_defs)
next
  case False
  then show ?thesis by (simp add: entry_at_def size_defs)
qed

text \<open>
  Claim C2, as the code has it. \<open>unmap_page\<close> returns \<open>-1\<close> and changes nothing when
  the virtual page is not below \<open>L1_ENTRIES * L2_ENTRIES\<close>, and equally when the
  second-level table of the page does not exist (\<open>if (!t) return -1\<close>). When the
  table exists it returns \<open>0\<close>; the entry becomes \<open>(-1, 0)\<close>, that is unmapped; if the
  entry held a frame number in \<open>[0, NUM_PHYS_PAGES)\<close> that frame is marked free and no
  other bitmap slot changes (for any other stored number the bitmap is unchanged);
  every other entry, \<open>RAM\<close> and the counters are unchanged.
\<close>

theorem unmap_page_spec:
  "(unat v \<ge> L1_ENTRIES * L2_ENTRIES \<longrightarrow> unmap_page s v = (-1, s)) \<and>
   (unat v < L1_ENTRIES * L2_ENTRIES \<and> page_table s (unat v div L2_ENTRIES) = None \<longrightarrow>
      unmap_page s v = (-1, s)) \<and>
   (unat v < L1_ENTRIES * L2_ENTRIES \<and> entry_at s (unat v) = Some e \<longrightarrow>
      (\<exists>s'. unmap_page s v = (0, s') \<and>
         entry_at s' (unat v) = Some \<lparr>phys_page = -1, flags = 0\<rparr> \<and> unmapped s' (unat v) \<and>
         (0 \<le> phys_page e \<and> phys_page e < int NUM_PHYS_PAGES \<longrightarrow>
            \<not> phys_pages_used s' (nat (phys_page e)) \<and>
            (\<forall>k. k \<noteq> nat (phys_page e) \<longrightarrow> phys_pages_used s' k = phys_pages_used s k)) \<and>
         (\<not> (0 \<le> phys_page e \<and> phys_page e < int NUM_PHYS_PAGES) \<longrightarrow>
            phys_pages_used s' = phys_pages_used s) \<and>
         (\<forall>q. q \<noteq> unat v \<longrightarrow> entry_at s' q = entry_at s q) \<and>
         RAM s' = RAM s \<and> stats s' = stats s))"
proof (intro conjI impI)
  assume "unat v \<ge> L1_ENTRIES * L2_ENTRIES"
  then show "unmap_page s v = (-1, s)" by (rule unmap_page_oob)
next
  assume h: "unat v < L1_ENTRIES * L2_ENTRIES \<and> page_table s (unat v div L2_ENTRIES) = None"
  then have "page_table s (unat v div 16) = None" by (simp add: size_defs)
  then show "unmap_page s v = (-1, s)"
    unfolding unmap_page_in_range [OF h [THEN conjunct1]] by simp
next
  assume h: "unat v < L1_ENTRIES * L2_ENTRIES \<and> entry_at s (unat v) = Some e"
  then obtain t where t: "page_table s (unat v div 16) = Some t" and e: "e = t (unat v mod 16)"
    by (auto simp add: entry_at_def size_defs split: option.splits)
  let ?s1 = "if phys_page e \<ge> 0 then free_phys_page s (phys_page e) else s"
  let ?s' = "?s1\<lparr>page_table := (page_table s)(unat v div 16 :=
                 Some (t(unat v mod 16 := \<lparr>phys_page = -1, flags = 0\<rparr>)))\<rparr>"
  have 1: "unmap_page s v = (0, ?s')"
    unfolding unmap_page_in_range [OF h [THEN conjunct1]] using t e by simp
  have 2: "entry_at ?s' (unat v) = Some \<lparr>phys_page = -1, flags = 0\<rparr>"
    by (rule entry_at_clear_same)
  then have 3: "unmapped ?s' (unat v)"
    unfolding unmapped_def by simp
  have 4: "\<not> phys_pages_used ?s' (nat (phys_page e)) \<and>
            (\<forall>k. k \<noteq> nat (phys_page e) \<longrightarrow> phys_pages_used ?s' k = phys_pages_used s k)"
    if "0 \<le> phys_page e \<and> phys_page e < int NUM_PHYS_PAGES"
    using that by (simp add: free_phys_page_def)
  have 5: "phys_pages_used ?s' = phys_pages_used s"
    if "\<not> (0 \<le> phys_page e \<and> phys_page e < int NUM_PHYS_PAGES)"
    using that by (auto simp add: free_phys_page_def)
  have 6: "entry_at ?s' q = entry_at s q" if "q \<noteq> unat v" for q
    using that t by (rule entry_at_clear_other)
  have 7: "RAM ?s' = RAM s" "stats ?s' = stats s"
    by (simp_all add: free_phys_page_def)
  show "\<exists>s'. unmap_page s v = (0, s') \<and>
         entry_at s' (unat v) = Some \<lparr>phys_page = -1, flags = 0\<rparr> \<and> unmapped s' (unat v) \<and>
         (0 \<le> phys_page e \<and> phys_page e < int NUM_PHYS_PAGES \<longrightarrow>
            \<not> phys_pages_used s' (nat (phys_page e)) \<and>
            (\<forall>k. k \<noteq> nat (phys_page e) \<longrightarrow> phys_pages_used s' k = phys_pages_used s k)) \<and>
         (\<not> (0 \<le> phys_page e \<and> phys_page e < int NUM_PHYS_PAGES) \<longrightarrow>
            phys_pages_used s' = phys_pages_used s) \<and>
         (\<forall>q. q \<noteq> unat v \<longrightarrow> entry_at s' q = entry_at s q) \<and>
         RAM s' = RAM s \<and> stats s' = stats s"
    apply (rule exI [of _ "?s'"])
    apply (intro conjI allI impI)
    apply (rule 1, rule 2, rule 3)
    using 4 apply blast
    using 4 apply blast
    using 5 apply blast
    using 6 apply blast
    apply (rule 7(1), rule 7(2))
    done
qed

theorem unmap_page_absent_table_counterexample:
  "unat (6 :: u16) < L1_ENTRIES * L2_ENTRIES \<and> page_table vm0 (unat (6 :: u16) div L2_ENTRIES) = None \<and>
   fst (unmap_page vm0 6) = -1"
  by (simp add: unmap_page_in_range size_defs) (simp add: vm0_def)

theorem unmap_page_spec_witness:
  "unmap_page vm0 0x100 = (-1, vm0) \<and> unmap_page vm0 6 = (-1, vm0) \<and>
   (\<exists>s'. unmap_page (snd (map_page vm0 6 40 (PTE_READ OR PTE_WRITE) (Some junk_block))) 6 = (0, s') \<and>
         unmapped s' 6 \<and> \<not> phys_pages_used s' 40)"
proof -
  let ?s = "snd (map_page vm0 6 40 (PTE_READ OR PTE_WRITE) (Some junk_block))"
  have 1: "unmap_page vm0 0x100 = (-1, vm0)"
    using unmap_page_spec [of "0x100" vm0, THEN conjunct1] by (simp add: size_defs)
  have 2: "unmap_page vm0 6 = (-1, vm0)"
    using unmap_page_spec [of 6 vm0, THEN conjunct2, THEN conjunct1]
    by (simp add: size_defs vm0_def)
  have m: "map_page vm0 6 40 (PTE_READ OR PTE_WRITE) (Some junk_block) = (0, ?s)"
    by (simp add: map_page_in_range size_defs vm0_def allocate_L2_def)
  have e: "entry_at ?s (unat (6 :: u16)) =
             Some \<lparr>phys_page = uint (40 :: u16), flags = (PTE_READ OR PTE_WRITE) OR PTE_VALID\<rparr>"
    by (rule map_page_success(3) [OF m])
  have 3: "\<exists>s'. unmap_page ?s 6 = (0, s') \<and> unmapped s' 6 \<and> \<not> phys_pages_used s' 40"
    using unmap_page_spec [of 6 ?s "\<lparr>phys_page = uint (40 :: u16), flags = (PTE_READ OR PTE_WRITE) OR PTE_VALID\<rparr>",
        THEN conjunct2, THEN conjunct2] e
    by (simp add: size_defs) blast
  from 1 2 3 show ?thesis by blast
qed

section \<open>Translation and permissions\<close>

lemma count_failure_fields [simp]:
  "RAM (count_failure s) = RAM s" "page_table (count_failure s) = page_table s"
  "phys_pages_used (count_failure s) = phys_pages_used s"
  "page_faults (stats (count_failure s)) = page_faults (stats s)"
  "reads (stats (count_failure s)) = reads (stats s)"
  "writes (stats (count_failure s)) = writes (stats s)"
  "translation_failures (stats (count_failure s)) = translation_failures (stats s) + 1"
  by (simp_all add: count_failure_def)

lemma translate_effect:
  "(\<exists>p. translate s vaddr w = (Paddr p, s)) \<or>
   (\<exists>oc. translate s vaddr w = (oc, count_failure s) \<and> ret_code oc \<noteq> 0 \<and> out_paddr oc = None)"
  by (simp add: translate_def Let_def split: option.splits)

text \<open>
  Claim C10. \<open>translate\<close> leaves \<open>RAM\<close>, the page table, the bitmap and the counters
  \<open>page_faults\<close>, \<open>reads\<close> and \<open>writes\<close> as they were. On success the whole state is
  unchanged; on any failure the state is the old one with \<open>translation_failures\<close>
  incremented, and \<open>*out_paddr\<close> is not written.
\<close>

theorem translate_frame:
  "(case translate s vaddr w of (oc, s') \<Rightarrow>
      RAM s' = RAM s \<and> page_table s' = page_table s \<and> phys_pages_used s' = phys_pages_used s \<and>
      page_faults (stats s') = page_faults (stats s) \<and> reads (stats s') = reads (stats s) \<and>
      writes (stats s') = writes (stats s) \<and>
      (ret_code oc = 0 \<longrightarrow> s' = s) \<and>
      (ret_code oc \<noteq> 0 \<longrightarrow> out_paddr oc = None \<and> s' = count_failure s))"
  using translate_effect [of s vaddr w] by auto

theorem translate_frame_witness:
  "out_paddr (fst (translate vm0 0x200000 True)) = None \<and>
   ret_code (fst (translate vm0 0x200000 True)) = -1 \<and>
   snd (translate vm0 0x200000 True) = count_failure vm0 \<and>
   ret_code (fst (translate (snd (map_page vm0 0 10 (PTE_READ OR PTE_WRITE) (Some junk_block))) 0x100 False)) = 0 \<and>
   snd (translate (snd (map_page vm0 0 10 (PTE_READ OR PTE_WRITE) (Some junk_block))) 0x100 False) =
     snd (map_page vm0 0 10 (PTE_READ OR PTE_WRITE) (Some junk_block))"
proof -
  let ?s1 = "snd (map_page vm0 0 10 (PTE_READ OR PTE_WRITE) (Some junk_block))"
  have 1: "out_paddr (fst (translate vm0 0x200000 True)) = None \<and>
   ret_code (fst (translate vm0 0x200000 True)) = -1 \<and>
   snd (translate vm0 0x200000 True) = count_failure vm0"
    using translate_frame [of vm0 "0x200000" True]
    by (simp add: translate_oob size_defs)
  have m1: "map_page vm0 0 10 (PTE_READ OR PTE_WRITE) (Some junk_block) = (0, ?s1)"
    by (simp add: map_page_in_range size_defs vm0_def allocate_L2_def)
  have pg: "vpage_of 0x100 < 256" and pz: "vpage_of 0x100 = unat (0 :: u16)"
    by (simp_all add: vpage_of_def size_defs)
  have e1: "entry_at ?s1 (vpage_of 0x100) =
      Some \<lparr>phys_page = uint (10 :: u16), flags = (PTE_READ OR PTE_WRITE) OR PTE_VALID\<rparr>"
    unfolding pz by (rule map_page_success(3) [OF m1])
  from translate_mapped [OF pg e1, of False] rw_valid_bits
  obtain pa where t: "translate ?s1 0x100 False = (Paddr pa, ?s1)" by auto
  have 2: "ret_code (fst (translate ?s1 0x100 False)) = 0 \<and> snd (translate ?s1 0x100 False) = ?s1"
    using translate_frame [of ?s1 "0x100" False] unfolding t by simp
  from 1 2 show ?thesis by blast
qed

lemma translate_denied_is_terminal:
  assumes "fst (translate s vaddr w) = PermissionDenied"
  shows "translate s vaddr w = (PermissionDenied, count_failure s)"
  using translate_effect [of s vaddr w] assms by auto

lemma write_vmem_denied:
  assumes "fst (translate s vaddr True) = PermissionDenied"
  shows "write_vmem s vaddr b m = (-1, count_failure s)"
  unfolding write_vmem_def translate_denied_is_terminal [OF assms]
  by (simp add: write_finish_def)

lemma read_vmem_denied:
  assumes "fst (translate s vaddr False) = PermissionDenied"
  shows "read_vmem s vaddr m = (-1, None, count_failure s)"
  unfolding read_vmem_def translate_denied_is_terminal [OF assms]
  by (simp add: read_finish_def)

lemma translate_no_permission:
  assumes "vpage_of vaddr < 256" "entry_at s (vpage_of vaddr) = Some e"
    "0 \<le> phys_page e" "flags e AND PTE_VALID \<noteq> 0"
    "if w then flags e AND PTE_WRITE = 0 else flags e AND PTE_READ = 0"
  shows "fst (translate s vaddr w) = PermissionDenied"
  unfolding translate_eq [OF vaddr_in_space [OF assms(1)]] using assms(2-5)
  by (simp split: if_splits)

text \<open>
  Claim C4. Let the page of \<open>vaddr\<close> be mapped (valid entry holding a frame). If the
  entry lacks \<open>PTE_WRITE\<close>, as after mapping with \<open>PTE_READ\<close> only, \<open>translate\<close> for
  writing ends at the permission-denied return (\<open>-2\<close>) and \<open>write_vmem\<close> returns its
  failure code \<open>-1\<close> having changed nothing but \<open>translation_failures\<close>; in particular
  \<open>page_faults\<close> is unchanged. If the entry lacks \<open>PTE_READ\<close>, the same holds for
  \<open>read_vmem\<close>. And at any address \<open>a\<close> where \<open>translate\<close> reports permission denied,
  \<open>write_vmem\<close> and \<open>read_vmem\<close> return straight after that one \<open>translate\<close>: the
  fault handler does not run.
\<close>

theorem permission_denied_no_fault:
  assumes "vpage_of vaddr < L1_ENTRIES * L2_ENTRIES" and "entry_at s (vpage_of vaddr) = Some e"
    and "0 \<le> phys_page e" and "flags e AND PTE_VALID \<noteq> 0"
  shows "(flags e AND PTE_WRITE = 0 \<longrightarrow>
            fst (translate s vaddr True) = PermissionDenied \<and>
            write_vmem s vaddr b m = (-1, count_failure s) \<and>
            page_faults (stats (snd (write_vmem s vaddr b m))) = page_faults (stats s)) \<and>
         (flags e AND PTE_READ = 0 \<longrightarrow>
            fst (translate s vaddr False) = PermissionDenied \<and>
            read_vmem s vaddr m = (-1, None, count_failure s) \<and>
            page_faults (stats (snd (snd (read_vmem s vaddr m)))) = page_faults (stats s)) \<and>
         (fst (translate s a True) = PermissionDenied \<longrightarrow>
            write_vmem s a b m = (-1, snd (translate s a True)) \<and>
            snd (translate s a True) = count_failure s) \<and>
         (fst (translate s a False) = PermissionDenied \<longrightarrow>
            read_vmem s a m = (-1, None, snd (translate s a False)) \<and>
            snd (translate s a False) = count_failure s)"
proof -
  have pg: "vpage_of vaddr < 256" using assms(1) by (simp add: size_defs)
  have w: "fst (translate s vaddr True) = PermissionDenied" if "flags e AND PTE_WRITE = 0"
    using translate_no_permission [OF pg assms(2-4), of True] that by simp
  have r: "fst (translate s vaddr False) = PermissionDenied" if "flags e AND PTE_READ = 0"
    using translate_no_permission [OF pg assms(2-4), of False] that by simp
  show ?thesis
    using w r
    by (auto simp add: write_vmem_denied read_vmem_denied translate_denied_is_terminal)
qed

theorem permission_denied_no_fault_witness:
  "fst (translate (snd (map_page vm0 1 20 PTE_READ (Some junk_block))) 0x1032 True) = PermissionDenied \<and>
   write_vmem (snd (map_page vm0 1 20 PTE_READ (Some junk_block))) 0x1032 0xDD None =
     (-1, count_failure (snd (map_page vm0 1 20 PTE_READ (Some junk_block)))) \<and>
   fst (translate (snd (map_page vm0 2 21 PTE_WRITE (Some junk_block))) 0x2100 False) = PermissionDenied \<and>
   read_vmem (snd (map_page vm0 2 21 PTE_WRITE (Some junk_block))) 0x2100 None =
     (-1, None, count_failure (snd (map_page vm0 2 21 PTE_WRITE (Some junk_block)))) \<and>
   write_vmem (snd (map_page vm0 1 20 PTE_READ (Some junk_block))) 0x1032 0xDD None =
     (-1, snd (translate (snd (map_page vm0 1 20 PTE_READ (Some junk_block))) 0x1032 True)) \<and>
   read_vmem (snd (map_page vm0 2 21 PTE_WRITE (Some junk_block))) 0x2100 None =
     (-1, None, snd (translate (snd (map_page vm0 2 21 PTE_WRITE (Some junk_block))) 0x2100 False))"
proof -
  let ?s1 = "snd (map_page vm0 1 20 PTE_READ (Some junk_block))"
  let ?s2 = "snd (map_page vm0 2 21 PTE_WRITE (Some junk_block))"
  have m1: "map_page vm0 1 20 PTE_READ (Some junk_block) = (0, ?s1)"
    by (simp add: map_page_in_range size_defs vm0_def allocate_L2_def)
  have m2: "map_page vm0 2 21 PTE_WRITE (Some junk_block) = (0, ?s2)"
    by (simp add: map_page_in_range size_defs vm0_def allocate_L2_def)
  have e1: "entry_at ?s1 (vpage_of 0x1032) = Some \<lparr>phys_page = uint (20 :: u16), flags = PTE_READ OR PTE_VALID\<rparr>"
    using map_page_success(3) [OF m1] by (simp add: vpage_of_def size_defs)
  have e2: "entry_at ?s2 (vpage_of 0x2100) = Some \<lparr>phys_page = uint (21 :: u16), flags = PTE_WRITE OR PTE_VALID\<rparr>"
    using map_page_success(3) [OF m2] by (simp add: vpage_of_def size_defs)
  have p1: "vpage_of 0x1032 < L1_ENTRIES * L2_ENTRIES" "vpage_of 0x2100 < L1_ENTRIES * L2_ENTRIES"
    by (simp_all add: vpage_of_def size_defs)
  have w: "fst (translate ?s1 0x1032 True) = PermissionDenied \<and>
        write_vmem ?s1 0x1032 0xDD None = (-1, count_failure ?s1)"
    using permission_denied_no_fault [OF p1(1) e1, of "0xDD" None 0, THEN conjunct1]
    by (simp add: flag_defs)
  have r: "fst (translate ?s2 0x2100 False) = PermissionDenied \<and>
        read_vmem ?s2 0x2100 None = (-1, None, count_failure ?s2)"
    using permission_denied_no_fault [OF p1(2) e2, of 0 None 0, THEN conjunct2, THEN conjunct1]
    by (simp add: flag_defs)
  have a1: "0 \<le> phys_page \<lparr>phys_page = uint (20 :: u16), flags = PTE_READ OR PTE_VALID\<rparr>"
    "flags \<lparr>phys_page = uint (20 :: u16), flags = PTE_READ OR PTE_VALID\<rparr> AND PTE_VALID \<noteq> 0"
    by (simp_all add: flag_defs)
  have a2: "0 \<le> phys_page \<lparr>phys_page = uint (21 :: u16), flags = PTE_WRITE OR PTE_VALID\<rparr>"
    "flags \<lparr>phys_page = uint (21 :: u16), flags = PTE_WRITE OR PTE_VALID\<rparr> AND PTE_VALID \<noteq> 0"
    by (simp_all add: flag_defs)
  have w': "write_vmem ?s1 0x1032 0xDD None = (-1, snd (translate ?s1 0x1032 True))"
    using permission_denied_no_fault [OF p1(1) e1 a1, of "0xDD" None "0x1032",
        THEN conjunct2, THEN conjunct2, THEN conjunct1] w
    by blast
  have r': "read_vmem ?s2 0x2100 None = (-1, None, snd (translate ?s2 0x2100 False))"
    using permission_denied_no_fault [OF p1(2) e2 a2, of 0 None "0x2100",
        THEN conjunct2, THEN conjunct2, THEN conjunct2] r
    by blast
  from w r w' r' show ?thesis by blast
qed

section \<open>Accesses outside the address space\<close>

lemma page_fault_handler_oob_page:
  assumes "unat vp \<ge> L1_ENTRIES * L2_ENTRIES" "\<not> phys_pages_used s 0"
  shows "page_fault_handler s vp m =
    (-1, s\<lparr>stats := (stats s)\<lparr>page_faults := page_faults (stats s) + 1\<rparr>,
           RAM := memset (RAM s) 0 0 PAGE_SIZE,
           phys_pages_used := (phys_pages_used s)(0 := True)\<rparr>)"
proof -
  let ?s1 = "s\<lparr>stats := (stats s)\<lparr>page_faults := page_faults (stats s) + 1\<rparr>\<rparr>"
  have a: "allocate_phys_page ?s1 =
     (int 0, ?s1\<lparr>RAM := memset (RAM ?s1) (0 * PAGE_SIZE) 0 PAGE_SIZE,
                  phys_pages_used := (phys_pages_used ?s1)(0 := True)\<rparr>)"
    using assms(2) by (intro allocate_phys_page_lowest) (simp_all add: size_defs)
  show ?thesis
    unfolding page_fault_handler_def Let_def a
    using assms(1) by (simp add: map_page_oob)
qed

text \<open>
  Claim C1 does not hold of the code. \<open>translate\<close> returns \<open>-1\<close> for an address at or
  beyond \<open>RAM_SIZE\<close>, the same value as for a miss, and \<open>write_vmem\<close> and \<open>read_vmem\<close>
  call \<open>page_fault_handler\<close> on \<open>res == -1\<close>. Right after \<open>init_vm\<close>, the access at
  \<open>0x200000\<close> made by \<open>test_bounds_checking\<close> fails, but only after the handler has
  counted a page fault and taken frame 0, which no page-table entry refers to.
\<close>

theorem oob_access_runs_fault_handler:
  "fst (translate (init_vm s) 0x200000 True) = OutOfBounds \<and>
   fst (write_vmem (init_vm s) 0x200000 0x11 m) = -1 \<and>
   page_faults (stats (snd (write_vmem (init_vm s) 0x200000 0x11 m))) = 1 \<and>
   phys_pages_used (snd (write_vmem (init_vm s) 0x200000 0x11 m)) 0 \<and>
   page_table (snd (write_vmem (init_vm s) 0x200000 0x11 m)) = (\<lambda>_. None) \<and>
   fst (read_vmem (init_vm s) 0x200000 m) = -1 \<and>
   page_faults (stats (snd (snd (read_vmem (init_vm s) 0x200000 m)))) = 1 \<and>
   phys_pages_used (snd (snd (read_vmem (init_vm s) 0x200000 m))) 0"
proof -
  have t: "translate (init_vm s) 0x200000 w = (OutOfBounds, count_failure (init_vm s))" for w
    by (rule translate_oob) (simp add: size_defs)
  have vp: "(ucast (drop_bit 12 (0x200000 :: u32)) :: u16) = 0x200"
    by simp
  have h: "page_fault_handler (count_failure (init_vm s)) 0x200 m =
    (-1, (count_failure (init_vm s))\<lparr>stats := (stats (count_failure (init_vm s)))
             \<lparr>page_faults := page_faults (stats (count_failure (init_vm s))) + 1\<rparr>,
           RAM := memset (RAM (count_failure (init_vm s))) 0 0 PAGE_SIZE,
           phys_pages_used := (phys_pages_used (count_failure (init_vm s)))(0 := True)\<rparr>)"
    by (rule page_fault_handler_oob_page) (simp_all add: size_defs init_vm_def)
  show ?thesis
    unfolding write_vmem_def read_vmem_def t vp
    by (simp add: h) (simp add: init_vm_def)
qed

section \<open>Demand paging\<close>

lemma entry_at_cong: "page_table s' = page_table s \<Longrightarrow> entry_at s' p = entry_at s p"
  by (simp add: entry_at_def)

lemma frame_word:
  assumes "j < NUM_PHYS_PAGES"
  shows "unat (of_nat j :: u16) = j" "uint (of_nat j :: u16) = int j"
proof -
  have "j < 65536" using assms by (simp add: size_defs)
  then show 1: "unat (of_nat j :: u16) = j"
    by (simp add: unat_of_nat)
  show "uint (of_nat j :: u16) = int j"
    using uint_nat [of "of_nat j :: u16"] unfolding 1 .
qed

lemma page_fault_handler_maps:
  assumes "unat vp < L1_ENTRIES * L2_ENTRIES"
    and "j < NUM_PHYS_PAGES" "\<not> phys_pages_used s j" "\<forall>k<j. phys_pages_used s k"
    and "page_table s (unat vp div 16) = Some t \<or>
         page_table s (unat vp div 16) = None \<and> allocate_L2 m = Some t"
  shows "page_fault_handler s vp m =
    (0, s\<lparr>stats := (stats s)\<lparr>page_faults := page_faults (stats s) + 1\<rparr>,
          RAM := memset (RAM s) (j * PAGE_SIZE) 0 PAGE_SIZE,
          page_table := (page_table s)(unat vp div 16 :=
             Some (t(unat vp mod 16 := \<lparr>phys_page = int j, flags = (PTE_READ OR PTE_WRITE) OR PTE_VALID\<rparr>))),
          phys_pages_used := (phys_pages_used s)(j := True)\<rparr>)"
proof -
  let ?s1 = "s\<lparr>stats := (stats s)\<lparr>page_faults := page_faults (stats s) + 1\<rparr>\<rparr>"
  let ?s2 = "?s1\<lparr>RAM := memset (RAM ?s1) (j * PAGE_SIZE) 0 PAGE_SIZE,
                  phys_pages_used := (phys_pages_used ?s1)(j := True)\<rparr>"
  let ?f = "of_nat j :: u16"
  have a: "allocate_phys_page ?s1 = (int j, ?s2)"
    using assms(2-4) by (intro allocate_phys_page_lowest) simp_all
  have f: "unat ?f < NUM_PHYS_PAGES" using frame_word(1) [OF assms(2)] assms(2) by simp
  have t: "page_table ?s2 (unat vp div 16) = Some t \<or>
         page_table ?s2 (unat vp div 16) = None \<and> allocate_L2 m = Some t"
    using assms(5) by simp
  have mp: "map_page ?s2 vp ?f (PTE_READ OR PTE_WRITE) m =
    (0, ?s2\<lparr>page_table := (page_table ?s2)(unat vp div 16 :=
               Some (t(unat vp mod 16 := \<lparr>phys_page = uint ?f, flags = (PTE_READ OR PTE_WRITE) OR PTE_VALID\<rparr>))),
           phys_pages_used := (phys_pages_used ?s2)(unat ?f := True)\<rparr>)"
    by (rule map_page_installs [OF assms(1) f t])
  have split: "page_fault_handler s vp m = map_page ?s2 vp ?f (PTE_READ OR PTE_WRITE) m"
    unfolding page_fault_handler_def Let_def a by simp
  show ?thesis
    unfolding split mp by (simp add: frame_word [OF assms(2)])
qed


lemma translate_unmapped:
  assumes "vpage_of vaddr < 256" "unmapped s (vpage_of vaddr)"
  shows "translate s vaddr w = (TranslationMiss, count_failure s)"
  unfolding translate_eq [OF vaddr_in_space [OF assms(1)]] using assms(2)
  by (auto simp add: unmapped_def split: option.splits)

lemma vpage_word:
  assumes "vpage_of vaddr < 256"
  shows "unat (ucast (drop_bit 12 vaddr) :: u16) = vpage_of vaddr"
  using assms unfolding vpage_of_vaddr vpage_of_def by (simp add: size_defs)

lemma mapped_rwI:
  "entry_at s p = Some \<lparr>phys_page = int j, flags = (PTE_READ OR PTE_WRITE) OR PTE_VALID\<rparr> \<Longrightarrow>
   j < NUM_PHYS_PAGES \<Longrightarrow> mapped_rw s p"
  by (simp add: mapped_rw_def flag_defs)

lemma write_vmem_mapped_rw:
  assumes "vpage_of vaddr < 256" "mapped_rw s (vpage_of vaddr)"
  shows "\<exists>a. write_vmem s vaddr b m =
           (0, s\<lparr>RAM := (RAM s)(a := b), stats := (stats s)\<lparr>writes := writes (stats s) + 1\<rparr>\<rparr>)"
proof -
  from assms(2) obtain e where e: "entry_at s (vpage_of vaddr) = Some e"
    "0 \<le> phys_page e" "phys_page e < 256" "flags e AND PTE_VALID \<noteq> 0" "flags e AND PTE_WRITE \<noteq> 0"
    by (auto simp add: mapped_rw_def size_defs split: option.splits)
  from write_vmem_mapped [OF assms(1) e, of b m] show ?thesis by blast
qed

lemma read_vmem_mapped_rw:
  assumes "vpage_of vaddr < 256" "mapped_rw s (vpage_of vaddr)"
  shows "\<exists>v. read_vmem s vaddr m =
           (0, Some v, s\<lparr>stats := (stats s)\<lparr>reads := reads (stats s) + 1\<rparr>\<rparr>)"
proof -
  from assms(2) obtain e where e: "entry_at s (vpage_of vaddr) = Some e"
    "0 \<le> phys_page e" "phys_page e < 256" "flags e AND PTE_VALID \<noteq> 0" "flags e AND PTE_READ \<noteq> 0"
    by (auto simp add: mapped_rw_def size_defs split: option.splits)
  from read_vmem_mapped [OF assms(1) e, of m] show ?thesis by blast
qed

lemma mapped_rw_cong: "page_table s' = page_table s \<Longrightarrow> mapped_rw s' p = mapped_rw s p"
  by (simp add: mapped_rw_def entry_at_def)

lemma access_mapped_rw:
  assumes "p < 256" "mapped_rw s p" "access_in_page p x"
  shows "mapped_rw (exec s x) p \<and> page_faults (stats (exec s x)) = page_faults (stats s)"
proof (cases x)
  case (ReadVmem a m)
  with assms have pg: "vpage_of a < 256" "mapped_rw s (vpage_of a)" by simp_all
  from read_vmem_mapped_rw [OF pg, of m] obtain v where
    r: "read_vmem s a m = (0, Some v, s\<lparr>stats := (stats s)\<lparr>reads := reads (stats s) + 1\<rparr>\<rparr>)" by blast
  have "mapped_rw (s\<lparr>stats := (stats s)\<lparr>reads := reads (stats s) + 1\<rparr>\<rparr>) p = mapped_rw s p"
    by (rule mapped_rw_cong) simp
  with assms(2) show ?thesis unfolding ReadVmem exec.simps r by simp
next
  case (WriteVmem a b m)
  with assms have pg: "vpage_of a < 256" "mapped_rw s (vpage_of a)" by simp_all
  from write_vmem_mapped_rw [OF pg, of b m] obtain ad where
    w: "write_vmem s a b m = (0, s\<lparr>RAM := (RAM s)(ad := b), stats := (stats s)\<lparr>writes := writes (stats s) + 1\<rparr>\<rparr>)" by blast
  have "mapped_rw (s\<lparr>RAM := (RAM s)(ad := b), stats := (stats s)\<lparr>writes := writes (stats s) + 1\<rparr>\<rparr>) p = mapped_rw s p"
    by (rule mapped_rw_cong) simp
  with assms(2) show ?thesis unfolding WriteVmem exec.simps w by simp
qed (use assms(3) in simp_all)

lemma accesses_no_fault:
  assumes "p < 256"
  shows "mapped_rw s p \<Longrightarrow> list_all (access_in_page p) xs \<Longrightarrow>
         page_faults (stats (foldl exec s xs)) = page_faults (stats s)"
proof (induction xs arbitrary: s)
  case Nil
  then show ?case by simp
next
  case (Cons x xs)
  from Cons.prems have x: "access_in_page p x" and xs: "list_all (access_in_page p) xs" by simp_all
  from access_mapped_rw [OF assms Cons.prems(1) x]
  have m: "mapped_rw (exec s x) p" and f: "page_faults (stats (exec s x)) = page_faults (stats s)"
    by simp_all
  from Cons.IH [OF m xs] f show ?case by simp
qed

lemma write_vmem_after_fault:
  assumes "translate s vaddr True = (oc, s1)" "ret_code oc = -1"
    and "page_fault_handler s1 (ucast (drop_bit 12 vaddr)) m = (0, s2)"
    and "translate s2 vaddr True = (Paddr pa, s2)"
  shows "write_vmem s vaddr b m =
           (0, s2\<lparr>RAM := (RAM s2)(unat pa := b),
                  stats := (stats s2)\<lparr>writes := writes (stats s2) + 1\<rparr>\<rparr>)"
  using assms by (simp add: write_vmem_def write_finish_def)

lemma page_fault_handler_ok:
  assumes "unat vp < L1_ENTRIES * L2_ENTRIES"
    and "j < NUM_PHYS_PAGES" "\<not> phys_pages_used s j" "\<forall>k<j. phys_pages_used s k"
    and "page_table s (unat vp div L2_ENTRIES) \<noteq> None \<or> m \<noteq> None"
  shows "\<exists>s2. page_fault_handler s vp m = (0, s2) \<and>
           entry_at s2 (unat vp) =
             Some \<lparr>phys_page = int j, flags = (PTE_READ OR PTE_WRITE) OR PTE_VALID\<rparr> \<and>
           page_faults (stats s2) = page_faults (stats s) + 1"
proof -
  obtain t where t: "page_table s (unat vp div 16) = Some t \<or>
         page_table s (unat vp div 16) = None \<and> allocate_L2 m = Some t"
  proof (cases "page_table s (unat vp div 16)")
    case None
    with assms(5) have "m \<noteq> None" by (simp add: size_defs)
    with allocate_L2_cases [of m] obtain t where "allocate_L2 m = Some t" by auto
    with None that show ?thesis by simp
  next
    case (Some t)
    with that show ?thesis by simp
  qed
  note h = page_fault_handler_maps [OF assms(1-4) t]
  show ?thesis
    unfolding h by (simp add: entry_at_def size_defs)
qed

lemma write_vmem_faults_in:
  assumes "vpage_of vaddr < L1_ENTRIES * L2_ENTRIES" "unmapped s (vpage_of vaddr)"
    and "j < NUM_PHYS_PAGES" "\<not> phys_pages_used s j" "\<forall>k<j. phys_pages_used s k"
    and "page_table s (vpage_of vaddr div L2_ENTRIES) \<noteq> None \<or> m \<noteq> None"
  shows "\<exists>s'. write_vmem s vaddr b m = (0, s') \<and>
              page_faults (stats s') = page_faults (stats s) + 1 \<and> mapped_rw s' (vpage_of vaddr)"
proof -
  let ?p = "vpage_of vaddr"
  let ?vp = "ucast (drop_bit 12 vaddr) :: u16"
  let ?c = "count_failure s"
  let ?e = "\<lparr>phys_page = int j, flags = (PTE_READ OR PTE_WRITE) OR PTE_VALID\<rparr>"
  have pg: "?p < 256" using assms(1) by (simp add: size_defs)
  have vp: "unat ?vp = ?p" by (rule vpage_word [OF pg])
  have t1: "translate s vaddr True = (TranslationMiss, ?c)"
    by (rule translate_unmapped [OF pg assms(2)])
  have c1: "unat ?vp < L1_ENTRIES * L2_ENTRIES" using assms(1) unfolding vp .
  have c3: "\<not> phys_pages_used ?c j" using assms(4) by simp
  have c4: "\<forall>k<j. phys_pages_used ?c k" using assms(5) by simp
  have c5: "page_table ?c (unat ?vp div L2_ENTRIES) \<noteq> None \<or> m \<noteq> None"
    using assms(6) unfolding vp by simp
  have "\<exists>s2. page_fault_handler ?c ?vp m = (0, s2) \<and> entry_at s2 (unat ?vp) = Some ?e \<and>
           page_faults (stats s2) = page_faults (stats ?c) + 1"
    by (rule page_fault_handler_ok [OF c1 assms(3) c3 c4 c5])
  then obtain s2 where h: "page_fault_handler ?c ?vp m = (0, s2)"
    and e2: "entry_at s2 ?p = Some ?e" and f2: "page_faults (stats s2) = page_faults (stats s) + 1"
    unfolding vp by auto
  have m2: "mapped_rw s2 ?p"
    using e2 assms(3) by (rule mapped_rwI)
  have j: "0 \<le> phys_page ?e" "phys_page ?e < 256" using assms(3) by (simp_all add: size_defs)
  have fl: "flags ?e AND PTE_VALID \<noteq> 0" "if True then flags ?e AND PTE_WRITE \<noteq> 0 else flags ?e AND PTE_READ \<noteq> 0"
    using rw_valid_bits by simp_all
  from translate_mapped [OF pg e2 j fl]
  obtain pa where t2: "translate s2 vaddr True = (Paddr pa, s2)" by blast
  let ?s3 = "s2\<lparr>RAM := (RAM s2)(unat pa := b), stats := (stats s2)\<lparr>writes := writes (stats s2) + 1\<rparr>\<rparr>"
  have w: "write_vmem s vaddr b m = (0, ?s3)"
    by (rule write_vmem_after_fault [OF t1 _ h t2]) simp
  have "page_faults (stats ?s3) = page_faults (stats s) + 1" using f2 by simp
  moreover have "mapped_rw ?s3 ?p = mapped_rw s2 ?p" by (rule mapped_rw_cong) simp
  ultimately show ?thesis using w m2 by blast
qed


text \<open>
  Claim C3, as the code has it. Let page \<open>p\<close> be unmapped, some frame be free, and
  either the second-level table of \<open>p\<close> exist or \<open>malloc\<close> succeed. Then \<open>write_vmem\<close> at
  any address of \<open>p\<close> returns \<open>0\<close> and \<open>page_faults\<close> has grown by exactly 1 (in 32-bit
  arithmetic); and after any further sequence of reads and writes at addresses of
  \<open>p\<close>, \<open>page_faults\<close> still has that value.
\<close>

theorem demand_paging:
  assumes "p < L1_ENTRIES * L2_ENTRIES" and "vpage_of vaddr = p" and "unmapped s p"
    and "\<exists>i<NUM_PHYS_PAGES. \<not> phys_pages_used s i"
    and "page_table s (p div L2_ENTRIES) \<noteq> None \<or> m \<noteq> None"
  shows "\<exists>s'. write_vmem s vaddr b m = (0, s') \<and>
           page_faults (stats s') = page_faults (stats s) + 1 \<and>
           (\<forall>xs. list_all (access_in_page p) xs \<longrightarrow>
                 page_faults (stats (foldl exec s' xs)) = page_faults (stats s'))"
proof -
  from assms(4) obtain i where i: "i < NUM_PHYS_PAGES" "\<not> phys_pages_used s i" by blast
  define j where "j = (LEAST j. \<not> phys_pages_used s j)"
  from lowest_free_exists [OF i]
  have j: "j < NUM_PHYS_PAGES" "\<not> phys_pages_used s j" "\<forall>k<j. phys_pages_used s k"
    unfolding j_def by blast+
  have a: "vpage_of vaddr < L1_ENTRIES * L2_ENTRIES" "unmapped s (vpage_of vaddr)"
    "page_table s (vpage_of vaddr div L2_ENTRIES) \<noteq> None \<or> m \<noteq> None"
    using assms(1,3,5) unfolding assms(2) by simp_all
  from write_vmem_faults_in [OF a(1,2) j a(3), of b]
  obtain s' where w: "write_vmem s vaddr b m = (0, s')"
    and f: "page_faults (stats s') = page_faults (stats s) + 1" and mp: "mapped_rw s' p"
    unfolding assms(2) by blast
  have pg: "p < 256" using assms(1) by (simp add: size_defs)
  have "\<forall>xs. list_all (access_in_page p) xs \<longrightarrow>
                 page_faults (stats (foldl exec s' xs)) = page_faults (stats s')"
    using accesses_no_fault [OF pg mp] by blast
  with w f show ?thesis by blast
qed

theorem demand_paging_witness:
  "\<exists>s'. write_vmem vm0 0x5000 0xBB (Some junk_block) = (0, s') \<and>
        page_faults (stats s') = 1 \<and>
        page_faults (stats (foldl exec s' [ReadVmem 0x5000 None, WriteVmem 0x5FFF 0x22 None])) = 1"
proof -
  have 1: "(5::nat) < L1_ENTRIES * L2_ENTRIES" by (simp add: size_defs)
  have 2: "vpage_of 0x5000 = 5" by (simp add: vpage_of_def size_defs)
  have 3: "unmapped vm0 5" by (simp add: unmapped_def entry_at_def vm0_def)
  have 4: "\<exists>i<NUM_PHYS_PAGES. \<not> phys_pages_used vm0 i"
    by (rule exI [of _ 0]) (simp add: size_defs vm0_def)
  have 5: "page_table vm0 (5 div L2_ENTRIES) \<noteq> None \<or> Some junk_block \<noteq> None" by simp
  have 6: "list_all (access_in_page 5) [ReadVmem 0x5000 None, WriteVmem 0x5FFF 0x22 None]"
    by (simp add: vpage_of_def size_defs)
  from demand_paging [OF 1 2 3 4 5, of "0xBB"] obtain s' where
    w: "write_vmem vm0 0x5000 0xBB (Some junk_block) = (0, s')"
    and f: "page_faults (stats s') = page_faults (stats vm0) + 1"
    and n: "\<forall>xs. list_all (access_in_page 5) xs \<longrightarrow>
                 page_faults (stats (foldl exec s' xs)) = page_faults (stats s')"
    by blast
  have f1: "page_faults (stats s') = 1" using f by (simp add: vm0_def)
  from n 6 have
    "page_faults (stats (foldl exec s' [ReadVmem 0x5000 None, WriteVmem 0x5FFF 0x22 None])) =
       page_faults (stats s')"
    by blast
  with w f1 have "write_vmem vm0 0x5000 0xBB (Some junk_block) = (0, s') \<and>
        page_faults (stats s') = 1 \<and>
        page_faults (stats (foldl exec s' [ReadVmem 0x5000 None, WriteVmem 0x5FFF 0x22 None])) = 1"
    by (simp only: simp_thms)
  then show ?thesis by (rule exI)
qed

lemma write_vmem_fault_fails:
  assumes "translate s vaddr True = (oc, s1)" "ret_code oc = -1"
    and "page_fault_handler s1 (ucast (drop_bit 12 vaddr)) m = (h, s2)" "h \<noteq> 0"
  shows "write_vmem s vaddr b m = (-1, s2)"
  using assms by (simp add: write_vmem_def)

lemma page_fault_handler_no_table:
  assumes "unat vp < L1_ENTRIES * L2_ENTRIES" "\<not> phys_pages_used s 0"
    "page_table s (unat vp div 16) = None"
  shows "fst (page_fault_handler s vp None) = -1"
proof -
  let ?s1 = "s\<lparr>stats := (stats s)\<lparr>page_faults := page_faults (stats s) + 1\<rparr>\<rparr>"
  let ?s2 = "?s1\<lparr>RAM := memset (RAM ?s1) (0 * PAGE_SIZE) 0 PAGE_SIZE,
                  phys_pages_used := (phys_pages_used ?s1)(0 := True)\<rparr>"
  have a: "allocate_phys_page ?s1 = (int 0, ?s2)"
    using assms(2) by (intro allocate_phys_page_lowest) (simp_all add: size_defs)
  have f: "unat (0 :: u16) < NUM_PHYS_PAGES" by (simp add: size_defs)
  have "map_page ?s2 vp 0 (PTE_READ OR PTE_WRITE) None = (-1, ?s2)"
    unfolding map_page_in_range [OF assms(1) f] using assms(3) by simp
  then show ?thesis
    unfolding page_fault_handler_def Let_def a by simp
qed

theorem demand_paging_malloc_failure_counterexample:
  "vpage_of 0x5000 = 5 \<and> unmapped vm0 5 \<and> \<not> phys_pages_used vm0 0 \<and>
   fst (write_vmem vm0 0x5000 0xBB None) = -1"
proof -
  have 2: "vpage_of 0x5000 = 5" by (simp add: vpage_of_def size_defs)
  have 3: "unmapped vm0 5" by (simp add: unmapped_def entry_at_def vm0_def)
  have 4: "\<not> phys_pages_used vm0 0" by (simp add: vm0_def)
  have t: "translate vm0 0x5000 True = (TranslationMiss, count_failure vm0)"
    by (rule translate_unmapped) (simp_all add: 2 3)
  have vp: "unat (ucast (drop_bit 12 (0x5000 :: u32)) :: u16) = 5" by simp
  have "fst (page_fault_handler (count_failure vm0) (ucast (drop_bit 12 (0x5000 :: u32))) None) = -1"
    by (rule page_fault_handler_no_table) (simp_all add: vp size_defs, simp_all add: vm0_def)
  then obtain s2 where
    h: "page_fault_handler (count_failure vm0) (ucast (drop_bit 12 (0x5000 :: u32))) None = (-1, s2)"
    by (metis prod.collapse)
  have "write_vmem vm0 0x5000 0xBB None = (-1, s2)"
    by (rule write_vmem_fault_fails [OF t _ h]) simp_all
  with 2 3 4 show ?thesis by simp
qed

section \<open>Statistics counters\<close>

lemma finish_failed:
  assumes "ret_code oc \<noteq> 0"
  shows "write_finish oc s b = (-1, s)" "read_finish oc s = (-1, None, s)"
  using assms by (cases oc; simp add: write_finish_def read_finish_def)+

lemma write_vmem_cases [consumes 0, case_names direct denied fault_failed fault_served fault_repeated]:
  obtains
    p where "translate s vaddr True = (Paddr p, s)"
      "write_vmem s vaddr b m =
         (0, s\<lparr>RAM := (RAM s)(unat p := b), stats := (stats s)\<lparr>writes := writes (stats s) + 1\<rparr>\<rparr>)"
  | "write_vmem s vaddr b m = (-1, count_failure s)"
  | h s2 where "page_fault_handler (count_failure s) (ucast (drop_bit 12 vaddr)) m = (h, s2)"
      "write_vmem s vaddr b m = (-1, s2)"
  | s2 p where "page_fault_handler (count_failure s) (ucast (drop_bit 12 vaddr)) m = (0, s2)"
      "translate s2 vaddr True = (Paddr p, s2)"
      "write_vmem s vaddr b m =
         (0, s2\<lparr>RAM := (RAM s2)(unat p := b), stats := (stats s2)\<lparr>writes := writes (stats s2) + 1\<rparr>\<rparr>)"
  | s2 where "page_fault_handler (count_failure s) (ucast (drop_bit 12 vaddr)) m = (0, s2)"
      "write_vmem s vaddr b m = (-1, count_failure s2)"
proof -
  from translate_effect [of s vaddr True]
  consider (ok) p where "translate s vaddr True = (Paddr p, s)"
    | (fail) oc where "translate s vaddr True = (oc, count_failure s)" "ret_code oc \<noteq> 0"
    by blast
  then show ?thesis
  proof cases
    case ok
    then have "write_vmem s vaddr b m =
         (0, s\<lparr>RAM := (RAM s)(unat p := b), stats := (stats s)\<lparr>writes := writes (stats s) + 1\<rparr>\<rparr>)"
      by (simp add: write_vmem_def write_finish_def)
    with ok that(1) show ?thesis by blast
  next
    case fail
    show ?thesis
    proof (cases "ret_code oc = -1")
      case False
      with fail have "write_vmem s vaddr b m = (-1, count_failure s)"
        by (simp add: write_vmem_def finish_failed)
      with that(2) show ?thesis by blast
    next
      case True
      obtain h s2 where h: "page_fault_handler (count_failure s) (ucast (drop_bit 12 vaddr)) m = (h, s2)"
        by (cases "page_fault_handler (count_failure s) (ucast (drop_bit 12 vaddr)) m") blast
      show ?thesis
      proof (cases "h = 0")
        case False
        with fail True h have "write_vmem s vaddr b m = (-1, s2)"
          by (simp add: write_vmem_def)
        with h that(3) show ?thesis by blast
      next
        case h0: True
        from translate_effect [of s2 vaddr True]
        consider (ok2) p where "translate s2 vaddr True = (Paddr p, s2)"
          | (fail2) oc2 where "translate s2 vaddr True = (oc2, count_failure s2)" "ret_code oc2 \<noteq> 0"
          by blast
        then show ?thesis
        proof cases
          case ok2
          with fail True h h0 have "write_vmem s vaddr b m =
            (0, s2\<lparr>RAM := (RAM s2)(unat p := b), stats := (stats s2)\<lparr>writes := writes (stats s2) + 1\<rparr>\<rparr>)"
            by (simp add: write_vmem_def write_finish_def)
          with h h0 ok2 that(4) show ?thesis by blast
        next
          case fail2
          with fail True h h0 have "write_vmem s vaddr b m = (-1, count_failure s2)"
            by (simp add: write_vmem_def finish_failed)
          with h h0 that(5) show ?thesis by blast
        qed
      qed
    qed
  qed
qed

lemma read_vmem_cases [consumes 0, case_names direct denied fault_failed fault_served fault_repeated]:
  obtains
    p where "translate s vaddr False = (Paddr p, s)"
      "read_vmem s vaddr m =
         (0, Some (RAM s (unat p)), s\<lparr>stats := (stats s)\<lparr>reads := reads (stats s) + 1\<rparr>\<rparr>)"
  | "read_vmem s vaddr m = (-1, None, count_failure s)"
  | h s2 where "page_fault_handler (count_failure s) (ucast (drop_bit 12 vaddr)) m = (h, s2)"
      "read_vmem s vaddr m = (-1, None, s2)"
  | s2 p where "page_fault_handler (count_failure s) (ucast (drop_bit 12 vaddr)) m = (0, s2)"
      "translate s2 vaddr False = (Paddr p, s2)"
      "read_vmem s vaddr m =
         (0, Some (RAM s2 (unat p)), s2\<lparr>stats := (stats s2)\<lparr>reads := reads (stats s2) + 1\<rparr>\<rparr>)"
  | s2 where "page_fault_handler (count_failure s) (ucast (drop_bit 12 vaddr)) m = (0, s2)"
      "read_vmem s vaddr m = (-1, None, count_failure s2)"
proof -
  from translate_effect [of s vaddr False]
  consider (ok) p where "translate s vaddr False = (Paddr p, s)"
    | (fail) oc where "translate s vaddr False = (oc, count_failure s)" "ret_code oc \<noteq> 0"
    by blast
  then show ?thesis
  proof cases
    case ok
    then have "read_vmem s vaddr m =
         (0, Some (RAM s (unat p)), s\<lparr>stats := (stats s)\<lparr>reads := reads (stats s) + 1\<rparr>\<rparr>)"
      by (simp add: read_vmem_def read_finish_def)
    with ok that(1) show ?thesis by blast
  next
    case fail
    show ?thesis
    proof (cases "ret_code oc = -1")
      case False
      with fail have "read_vmem s vaddr m = (-1, None, count_failure s)"
        by (simp add: read_vmem_def finish_failed)
      with that(2) show ?thesis by blast
    next
      case True
      obtain h s2 where h: "page_fault_handler (count_failure s) (ucast (drop_bit 12 vaddr)) m = (h, s2)"
        by (cases "page_fault_handler (count_failure s) (ucast (drop_bit 12 vaddr)) m") blast
      show ?thesis
      proof (cases "h = 0")
        case False
        with fail True h have "read_vmem s vaddr m = (-1, None, s2)"
          by (simp add: read_vmem_def)
        with h that(3) show ?thesis by blast
      next
        case h0: True
        from translate_effect [of s2 vaddr False]
        consider (ok2) p where "translate s2 vaddr False = (Paddr p, s2)"
          | (fail2) oc2 where "translate s2 vaddr False = (oc2, count_failure s2)" "ret_code oc2 \<noteq> 0"
          by blast
        then show ?thesis
        proof cases
          case ok2
          with fail True h h0 have "read_vmem s vaddr m =
            (0, Some (RAM s2 (unat p)), s2\<lparr>stats := (stats s2)\<lparr>reads := reads (stats s2) + 1\<rparr>\<rparr>)"
            by (simp add: read_vmem_def read_finish_def)
          with h h0 ok2 that(4) show ?thesis by blast
        next
          case fail2
          with fail True h h0 have "read_vmem s vaddr m = (-1, None, count_failure s2)"
            by (simp add: read_vmem_def finish_failed)
          with h h0 that(5) show ?thesis by blast
        qed
      qed
    qed
  qed
qed


lemma allocate_phys_page_effect:
  "\<exists>pp R U. allocate_phys_page s = (pp, s\<lparr>RAM := R, phys_pages_used := U\<rparr>) \<and>
            (pp < 0 \<or> 0 \<le> pp \<and> pp < int NUM_PHYS_PAGES)"
proof (cases "\<exists>i<NUM_PHYS_PAGES. \<not> phys_pages_used s i")
  case True
  then obtain i where i: "i < NUM_PHYS_PAGES" "\<not> phys_pages_used s i" by blast
  define j where "j = (LEAST j. \<not> phys_pages_used s j)"
  from lowest_free_exists [OF i]
  have j: "j < NUM_PHYS_PAGES" "\<not> phys_pages_used s j" "\<forall>k<j. phys_pages_used s k"
    unfolding j_def by blast+
  from allocate_phys_page_lowest [OF j] j(1) show ?thesis by auto
next
  case False
  then have "\<forall>k<NUM_PHYS_PAGES. phys_pages_used s k" by blast
  from allocate_phys_page_exhausted [OF this]
  have "allocate_phys_page s = (-1, s\<lparr>RAM := RAM s, phys_pages_used := phys_pages_used s\<rparr>)"
    by simp
  then show ?thesis by fastforce
qed

lemma map_page_stats: "stats (snd (map_page s v f fl m)) = stats s"
  by (simp add: map_page_def Let_def split: option.splits)

lemma unmap_page_stats: "stats (snd (unmap_page s v)) = stats s"
  by (simp add: unmap_page_def free_phys_page_def Let_def split: option.splits)

lemma page_fault_handler_stats:
  assumes "page_fault_handler s vp m = (h, s2)"
  shows "stats s2 = (stats s)\<lparr>page_faults := page_faults (stats s) + 1\<rparr>"
proof -
  let ?s1 = "s\<lparr>stats := (stats s)\<lparr>page_faults := page_faults (stats s) + 1\<rparr>\<rparr>"
  from allocate_phys_page_effect [of ?s1] obtain pp R U where
    a: "allocate_phys_page ?s1 = (pp, ?s1\<lparr>RAM := R, phys_pages_used := U\<rparr>)" by blast
  have "stats (snd (page_fault_handler s vp m)) = (stats s)\<lparr>page_faults := page_faults (stats s) + 1\<rparr>"
    unfolding page_fault_handler_def Let_def a by (simp add: map_page_stats)
  with assms show ?thesis by simp
qed

lemma stats_stepI:
  assumes "page_faults b = page_faults a + x" "reads b = reads a + y" "writes b = writes a + z"
    "translation_failures b = translation_failures a + u"
    "x = 0 \<or> x = 1" "y = 0 \<or> y = 1" "z = 0 \<or> z = 1" "u = 0 \<or> u = 1 \<or> u = 2"
  shows "stats_step a b"
  using assms unfolding stats_step_def by auto

lemma write_vmem_stats: "stats_step (stats s) (stats (snd (write_vmem s vaddr b m)))"
proof (cases rule: write_vmem_cases [of s vaddr b m])
  case (direct p)
  then show ?thesis by (intro stats_stepI [of _ _ 0 0 1 0]) simp_all
next
  case denied
  then show ?thesis by (intro stats_stepI [of _ _ 0 0 0 1]) simp_all
next
  case (fault_failed h s2)
  from page_fault_handler_stats [OF fault_failed(1)] fault_failed(2)
  show ?thesis by (intro stats_stepI [of _ _ 1 0 0 1]) simp_all
next
  case (fault_served s2 p)
  from page_fault_handler_stats [OF fault_served(1)] fault_served(3)
  show ?thesis by (intro stats_stepI [of _ _ 1 0 1 1]) simp_all
next
  case (fault_repeated s2)
  from page_fault_handler_stats [OF fault_repeated(1)] fault_repeated(2)
  show ?thesis by (intro stats_stepI [of _ _ 1 0 0 2]) simp_all
qed


lemma read_vmem_stats: "stats_step (stats s) (stats (snd (snd (read_vmem s vaddr m))))"
proof (cases rule: read_vmem_cases [of s vaddr m])
  case (direct p)
  then show ?thesis by (intro stats_stepI [of _ _ 0 1 0 0]) simp_all
next
  case denied
  then show ?thesis by (intro stats_stepI [of _ _ 0 0 0 1]) simp_all
next
  case (fault_failed h s2)
  from page_fault_handler_stats [OF fault_failed(1)] fault_failed(2)
  show ?thesis by (intro stats_stepI [of _ _ 1 0 0 1]) simp_all
next
  case (fault_served s2 p)
  from page_fault_handler_stats [OF fault_served(1)] fault_served(3)
  show ?thesis by (intro stats_stepI [of _ _ 1 1 0 1]) simp_all
next
  case (fault_repeated s2)
  from page_fault_handler_stats [OF fault_repeated(1)] fault_repeated(2)
  show ?thesis by (intro stats_stepI [of _ _ 1 0 0 2]) simp_all
qed

lemma translate_stats: "stats_step (stats s) (stats (snd (translate s vaddr w)))"
  using translate_effect [of s vaddr w]
  by (auto intro: stats_stepI [of _ _ 0 0 0 0] stats_stepI [of _ _ 0 0 0 1])

lemma free_pages_stats: "stats (free_pages s) = stats s"
  by (simp add: free_pages_def)

lemma exec_stats_step:
  assumes "x \<noteq> InitVm"
  shows "stats_step (stats s) (stats (exec s x))"
proof (cases x)
  case InitVm
  with assms show ?thesis by simp
next
  case (MapPage v f fl m)
  then show ?thesis by (simp add: map_page_stats stats_step_def)
next
  case (UnmapPage v)
  then show ?thesis by (simp add: unmap_page_stats stats_step_def)
next
  case (ReadVmem a m)
  then show ?thesis by (simp add: read_vmem_stats)
next
  case (WriteVmem a b m)
  then show ?thesis by (simp add: write_vmem_stats)
next
  case (Translate a w)
  then show ?thesis by (simp add: translate_stats)
next
  case FreePages
  then show ?thesis by (simp add: free_pages_stats stats_step_def)
qed

lemma counter_no_wrap:
  fixes c :: u32
  shows "unat c + 1 < 2 ^ 32 \<Longrightarrow> c \<le> c + 1" "unat c + 2 < 2 ^ 32 \<Longrightarrow> c \<le> c + 2"
  by (simp_all add: word_le_nat_alt unat_word_ariths)

text \<open>
  Claim C9, as the code has it. The counters are \<open>uint32_t\<close>. Every public operation
  other than \<open>init_vm\<close> adds 0 or 1 to \<open>page_faults\<close>, to \<open>reads\<close> and to \<open>writes\<close>, and 0, 1
  or 2 to \<open>translation_failures\<close>, modulo \<open>2^32\<close>. So a counter is not smaller after
  the call than before as long as the addition does not wrap: \<open>page_faults\<close>, \<open>reads\<close>
  and \<open>writes\<close> below \<open>2^32 - 1\<close>, \<open>translation_failures\<close> below \<open>2^32 - 2\<close>.
\<close>

theorem counters_monotone_without_wraparound:
  assumes "x \<noteq> InitVm"
  shows "stats_step (stats s) (stats (exec s x)) \<and>
         (unat (page_faults (stats s)) + 1 < 2 ^ 32 \<longrightarrow>
            page_faults (stats s) \<le> page_faults (stats (exec s x))) \<and>
         (unat (reads (stats s)) + 1 < 2 ^ 32 \<longrightarrow>
            reads (stats s) \<le> reads (stats (exec s x))) \<and>
         (unat (writes (stats s)) + 1 < 2 ^ 32 \<longrightarrow>
            writes (stats s) \<le> writes (stats (exec s x))) \<and>
         (unat (translation_failures (stats s)) + 2 < 2 ^ 32 \<longrightarrow>
            translation_failures (stats s) \<le> translation_failures (stats (exec s x)))"
proof -
  note st = exec_stats_step [OF assms, of s]
  have 1: "page_faults (stats s) \<le> page_faults (stats (exec s x))"
    if "unat (page_faults (stats s)) + 1 < 2 ^ 32"
    using st counter_no_wrap(1) [OF that] unfolding stats_step_def by auto
  have 2: "reads (stats s) \<le> reads (stats (exec s x))"
    if "unat (reads (stats s)) + 1 < 2 ^ 32"
    using st counter_no_wrap(1) [OF that] unfolding stats_step_def by auto
  have 3: "writes (stats s) \<le> writes (stats (exec s x))"
    if "unat (writes (stats s)) + 1 < 2 ^ 32"
    using st counter_no_wrap(1) [OF that] unfolding stats_step_def by auto
  have 4: "translation_failures (stats s) \<le> translation_failures (stats (exec s x))"
    if "unat (translation_failures (stats s)) + 2 < 2 ^ 32"
  proof -
    from that have "unat (translation_failures (stats s)) + 1 < 2 ^ 32" by simp
    from counter_no_wrap(1) [OF this] counter_no_wrap(2) [OF that] st
    show ?thesis unfolding stats_step_def by auto
  qed
  from st 1 2 3 4 show ?thesis by blast
qed

theorem counters_monotone_without_wraparound_witness:
  "stats_step (stats vm0) (stats (exec vm0 (WriteVmem 0x5000 0xBB (Some junk_block)))) \<and>
   page_faults (stats vm0) \<le> page_faults (stats (exec vm0 (WriteVmem 0x5000 0xBB (Some junk_block)))) \<and>
   reads (stats vm0) \<le> reads (stats (exec vm0 (WriteVmem 0x5000 0xBB (Some junk_block)))) \<and>
   writes (stats vm0) \<le> writes (stats (exec vm0 (WriteVmem 0x5000 0xBB (Some junk_block)))) \<and>
   translation_failures (stats vm0) \<le>
     translation_failures (stats (exec vm0 (WriteVmem 0x5000 0xBB (Some junk_block))))"
  using counters_monotone_without_wraparound [of "WriteVmem 0x5000 0xBB (Some junk_block)" vm0]
  by (simp add: vm0_def)

lemma failed_lookups_state:
  "failed_lookups n = vm0\<lparr>stats := (stats vm0)\<lparr>translation_failures := of_nat n\<rparr>\<rparr>"
proof (induction n)
  case 0
  show ?case by (simp add: failed_lookups_def vm0_def)
next
  case (Suc n)
  have "failed_lookups (Suc n) = snd (translate (failed_lookups n) 0x100000 False)"
    by (simp add: failed_lookups_def)
  also have "\<dots> = count_failure (failed_lookups n)"
    by (simp add: translate_oob size_defs)
  also have "\<dots> = vm0\<lparr>stats := (stats vm0)\<lparr>translation_failures := of_nat (Suc n)\<rparr>\<rparr>"
    unfolding Suc.IH by (simp add: count_failure_def)
  finally show ?case .
qed

lemma failed_lookups_reachable: "reachable (failed_lookups n)"
proof (induction n)
  case 0
  have "vm0 = init_vm vm0" by (simp add: init_vm_def vm0_def)
  then have "reachable vm0" using reachable_init [of vm0] by simp
  then show ?case by (simp add: failed_lookups_def)
next
  case (Suc n)
  from reachable_step [OF Suc.IH, of "Translate 0x100000 False"]
  show ?case by (simp add: failed_lookups_def)
qed

theorem counter_wraparound_counterexample:
  "\<not> translation_failures (stats (failed_lookups 4294967295)) \<le>
     translation_failures (stats (exec (failed_lookups 4294967295) (Translate 0x100000 False)))"
proof -
  have "exec (failed_lookups 4294967295) (Translate 0x100000 False) =
          count_failure (failed_lookups 4294967295)"
    by (simp add: translate_oob size_defs)
  then show ?thesis
    unfolding failed_lookups_state by (simp add: vm0_def)
qed

section \<open>The frame invariant\<close>

lemma frames_in_range_cong:
  "page_table s' = page_table s \<Longrightarrow> frames_in_range s' = frames_in_range s"
  by (simp add: frames_in_range_def)

lemma frames_in_range_install:
  assumes "frames_in_range s" "\<forall>l2<L2_ENTRIES. phys_page (t l2) < int NUM_PHYS_PAGES"
    and "page_table s' = (page_table s)(l1 := Some t)"
  shows "frames_in_range s'"
  using assms unfolding frames_in_range_def by auto

lemma frames_in_range_entry:
  "frames_in_range s \<Longrightarrow> page_table s l1 = Some t \<Longrightarrow> l2 < L2_ENTRIES \<Longrightarrow>
   phys_page (t l2) < int NUM_PHYS_PAGES"
  unfolding frames_in_range_def by blast

lemma map_page_frames:
  assumes "frames_in_range s"
  shows "frames_in_range (snd (map_page s v f fl m))"
proof (cases "unat v < L1_ENTRIES * L2_ENTRIES \<and> unat f < NUM_PHYS_PAGES")
  case False
  then have "map_page s v f fl m = (-1, s)" by (intro map_page_oob) auto
  with assms show ?thesis by simp
next
  case True
  then have v: "unat v < L1_ENTRIES * L2_ENTRIES" and f: "unat f < NUM_PHYS_PAGES" by simp_all
  have fw: "uint f < int NUM_PHYS_PAGES" using uint_nat [of f] f by linarith
  let ?e = "\<lparr>phys_page = uint f, flags = fl OR PTE_VALID\<rparr>"
  have inst: "frames_in_range (s\<lparr>page_table := (page_table s)(unat v div 16 := Some (t(unat v mod 16 := ?e))),
                     phys_pages_used := (phys_pages_used s)(unat f := True)\<rparr>)"
    if "\<forall>l2<L2_ENTRIES. phys_page (t l2) < int NUM_PHYS_PAGES" for t
    by (rule frames_in_range_install [OF assms, of "t(unat v mod 16 := ?e)" _ "unat v div 16"])
       (use that fw in simp_all)
  show ?thesis
  proof (cases "page_table s (unat v div 16)")
    case (Some t)
    from frames_in_range_entry [OF assms Some]
    have "\<forall>l2<L2_ENTRIES. phys_page (t l2) < int NUM_PHYS_PAGES" by blast
    from inst [OF this] Some show ?thesis
      unfolding map_page_in_range [OF v f] by simp
  next
    case None
    from allocate_L2_cases [of m] show ?thesis
    proof
      assume "allocate_L2 m = None \<and> m = None"
      with None assms show ?thesis unfolding map_page_in_range [OF v f] by simp
    next
      assume "\<exists>t. allocate_L2 m = Some t \<and> m \<noteq> None \<and>
                  (\<forall>l2<L2_ENTRIES. t l2 = \<lparr>phys_page = -1, flags = 0\<rparr>)"
      then obtain t where t: "allocate_L2 m = Some t"
        "\<forall>l2<L2_ENTRIES. t l2 = \<lparr>phys_page = -1, flags = 0\<rparr>" by blast
      from t(2) have "\<forall>l2<L2_ENTRIES. phys_page (t l2) < int NUM_PHYS_PAGES"
        by (simp add: size_defs)
      from inst [OF this] None t(1) show ?thesis
        unfolding map_page_in_range [OF v f] by simp
    qed
  qed
qed

lemma unmap_page_frames:
  assumes "frames_in_range s"
  shows "frames_in_range (snd (unmap_page s v))"
proof (cases "unat v < L1_ENTRIES * L2_ENTRIES")
  case False
  then have "unmap_page s v = (-1, s)" by (intro unmap_page_oob) simp
  with assms show ?thesis by simp
next
  case True
  show ?thesis
  proof (cases "page_table s (unat v div 16)")
    case None
    with assms show ?thesis unfolding unmap_page_in_range [OF True] by simp
  next
    case (Some t)
    let ?s1 = "if phys_page (t (unat v mod 16)) \<ge> 0
               then free_phys_page s (phys_page (t (unat v mod 16))) else s"
    let ?t = "t(unat v mod 16 := \<lparr>phys_page = -1, flags = 0\<rparr>)"
    let ?s' = "?s1\<lparr>page_table := (page_table s)(unat v div 16 := Some ?t)\<rparr>"
    from frames_in_range_entry [OF assms Some]
    have fr: "\<forall>l2<L2_ENTRIES. phys_page (?t l2) < int NUM_PHYS_PAGES" by (simp add: size_defs)
    have pt: "page_table ?s' = (page_table s)(unat v div 16 := Some ?t)" by simp
    have "frames_in_range ?s'" by (rule frames_in_range_install [OF assms fr pt])
    then show ?thesis
      unfolding unmap_page_in_range [OF True] Some option.case snd_conv .
  qed
qed

lemma page_fault_handler_frames:
  assumes "frames_in_range s" "page_fault_handler s vp m = (h, s2)"
  shows "frames_in_range s2"
proof -
  let ?s1 = "s\<lparr>stats := (stats s)\<lparr>page_faults := page_faults (stats s) + 1\<rparr>\<rparr>"
  from allocate_phys_page_effect [of ?s1] obtain pp R U where
    a: "allocate_phys_page ?s1 = (pp, ?s1\<lparr>RAM := R, phys_pages_used := U\<rparr>)" by blast
  let ?s2 = "?s1\<lparr>RAM := R, phys_pages_used := U\<rparr>"
  have "frames_in_range ?s2 = frames_in_range s" by (rule frames_in_range_cong) simp
  with assms(1) have f2: "frames_in_range ?s2" by simp
  have "frames_in_range (snd (page_fault_handler s vp m))"
  proof (cases "pp < 0")
    case True
    with f2 show ?thesis unfolding page_fault_handler_def Let_def a by simp
  next
    case False
    from map_page_frames [OF f2, of vp "word_of_int pp" "PTE_READ OR PTE_WRITE" m] False
    show ?thesis unfolding page_fault_handler_def Let_def a by simp
  qed
  with assms(2) show ?thesis by simp
qed

lemma count_failure_frames: "frames_in_range (count_failure s) = frames_in_range s"
  by (rule frames_in_range_cong) simp

lemma write_vmem_frames:
  assumes "frames_in_range s"
  shows "frames_in_range (snd (write_vmem s vaddr b m))"
proof (cases rule: write_vmem_cases [of s vaddr b m])
  case (direct p)
  have "frames_in_range (snd (write_vmem s vaddr b m)) = frames_in_range s"
    unfolding direct(2) by (rule frames_in_range_cong) simp
  with assms show ?thesis by simp
next
  case denied
  with assms show ?thesis by (simp add: count_failure_frames)
next
  case (fault_failed h s2)
  from page_fault_handler_frames [OF _ fault_failed(1)] assms fault_failed(2)
  show ?thesis by (simp add: count_failure_frames)
next
  case (fault_served s2 p)
  from page_fault_handler_frames [OF _ fault_served(1)] assms
  have "frames_in_range s2" by (simp add: count_failure_frames)
  moreover have "frames_in_range (snd (write_vmem s vaddr b m)) = frames_in_range s2"
    unfolding fault_served(3) by (rule frames_in_range_cong) simp
  ultimately show ?thesis by simp
next
  case (fault_repeated s2)
  from page_fault_handler_frames [OF _ fault_repeated(1)] assms fault_repeated(2)
  show ?thesis by (simp add: count_failure_frames)
qed

lemma read_vmem_frames:
  assumes "frames_in_range s"
  shows "frames_in_range (snd (snd (read_vmem s vaddr m)))"
proof (cases rule: read_vmem_cases [of s vaddr m])
  case (direct p)
  have "frames_in_range (snd (snd (read_vmem s vaddr m))) = frames_in_range s"
    unfolding direct(2) by (rule frames_in_range_cong) simp
  with assms show ?thesis by simp
next
  case denied
  with assms show ?thesis by (simp add: count_failure_frames)
next
  case (fault_failed h s2)
  from page_fault_handler_frames [OF _ fault_failed(1)] assms fault_failed(2)
  show ?thesis by (simp add: count_failure_frames)
next
  case (fault_served s2 p)
  from page_fault_handler_frames [OF _ fault_served(1)] assms
  have "frames_in_range s2" by (simp add: count_failure_frames)
  moreover have "frames_in_range (snd (snd (read_vmem s vaddr m))) = frames_in_range s2"
    unfolding fault_served(3) by (rule frames_in_range_cong) simp
  ultimately show ?thesis by simp
next
  case (fault_repeated s2)
  from page_fault_handler_frames [OF _ fault_repeated(1)] assms fault_repeated(2)
  show ?thesis by (simp add: count_failure_frames)
qed

lemma translate_frames:
  assumes "frames_in_range s"
  shows "frames_in_range (snd (translate s vaddr w))"
  using translate_effect [of s vaddr w] assms by (auto simp add: count_failure_frames)

lemma free_slot_cases:
  "(case pt i of None \<Rightarrow> pt | Some t \<Rightarrow> pt(i := None)) l1 = None \<or>
   (case pt i of None \<Rightarrow> pt | Some t \<Rightarrow> pt(i := None)) l1 = pt l1"
  by (cases "pt i") auto

lemma free_pages_table:
  assumes "f = (\<lambda>i pt. case pt i of None \<Rightarrow> pt | Some t \<Rightarrow> pt(i := None))"
  shows "fold f xs pt l1 = None \<or> fold f xs pt l1 = pt l1"
proof (induction xs arbitrary: pt)
  case Nil
  show ?case by simp
next
  case (Cons i xs)
  have 1: "fold f (i # xs) pt l1 = fold f xs (f i pt) l1" by simp
  have 2: "f i pt l1 = None \<or> f i pt l1 = pt l1"
    unfolding assms by (rule free_slot_cases)
  from Cons.IH [of "f i pt"] 2 show ?case unfolding 1 by metis
qed

lemma free_pages_frames:
  assumes "frames_in_range s"
  shows "frames_in_range (free_pages s)"
  unfolding frames_in_range_def
proof (intro allI impI)
  fix l1 t l2
  assume h: "page_table (free_pages s) l1 = Some t \<and> l2 < L2_ENTRIES"
  from free_pages_table [OF refl, of "[0..<L1_ENTRIES]" "page_table s" l1] h
  have "page_table s l1 = Some t" by (auto simp add: free_pages_def)
  from frames_in_range_entry [OF assms this] h
  show "phys_page (t l2) < int NUM_PHYS_PAGES" by simp
qed

lemma init_vm_frames: "frames_in_range (init_vm s)"
  by (simp add: frames_in_range_def init_vm_def)

lemma exec_frames:
  assumes "frames_in_range s"
  shows "frames_in_range (exec s x)"
  using assms
  by (cases x)
     (simp_all add: init_vm_frames map_page_frames unmap_page_frames read_vmem_frames
        write_vmem_frames translate_frames free_pages_frames)

lemma reachable_frames_in_range: "reachable s \<Longrightarrow> frames_in_range s"
  by (induction rule: reachable.induct) (simp_all add: init_vm_frames exec_frames)


lemma translate_not_inconsistent:
  assumes "frames_in_range s"
  shows "fst (translate s vaddr w) \<noteq> InternalInconsistency"
proof (cases "unat vaddr < RAM_SIZE")
  case False
  then show ?thesis by (simp add: translate_oob)
next
  case True
  show ?thesis
  proof (cases "entry_at s (vpage_of vaddr)")
    case None
    then show ?thesis unfolding translate_eq [OF True] by simp
  next
    case (Some e)
    then obtain t where t: "page_table s (vpage_of vaddr div L2_ENTRIES) = Some t"
      and e: "e = t (vpage_of vaddr mod L2_ENTRIES)"
      by (auto simp add: entry_at_def split: option.splits)
    have "vpage_of vaddr mod L2_ENTRIES < L2_ENTRIES" by (simp add: size_defs)
    from frames_in_range_entry [OF assms t this] e
    have lt: "phys_page e < 256" by (simp add: size_defs)
    show ?thesis
    proof (cases "0 \<le> phys_page e")
      case False
      with Some show ?thesis unfolding translate_eq [OF True] by simp
    next
      case nn: True
      from paddr_in_range(2) [OF nn lt, of vaddr]
      have "\<not> RAM_SIZE \<le> unat (word_of_int (phys_page e * 4096 + int (unat vaddr mod 4096)) :: u32)"
        by simp
      with Some show ?thesis unfolding translate_eq [OF True] by (simp split: if_splits)
    qed
  qed
qed

lemma translate_paddr_in_store:
  "fst (translate s vaddr w) = Paddr p \<Longrightarrow> unat p < RAM_SIZE"
  by (auto simp add: translate_def Let_def split: option.splits if_splits)

text \<open>
  Claim C8. In every state reachable from \<open>init_vm\<close> by the public operations, each
  frame number stored in a second-level table is below \<open>NUM_PHYS_PAGES\<close>
  (\<open>reachable_frames_in_range\<close>). Hence for a stored frame \<open>f \<ge> 0\<close> and any offset
  below \<open>PAGE_SIZE\<close>, \<open>f * PAGE_SIZE + offset < RAM_SIZE\<close>; \<open>translate\<close> never leaves by
  its internal-inconsistency return; and the physical address it delivers indexes
  \<open>RAM\<close> within bounds.
\<close>

theorem internal_inconsistency_unreachable:
  assumes "reachable s"
  shows "fst (translate s vaddr w) \<noteq> InternalInconsistency \<and>
         (\<forall>l1 t l2 off. page_table s l1 = Some t \<and> l2 < L2_ENTRIES \<and> 0 \<le> phys_page (t l2) \<and>
              off < PAGE_SIZE \<longrightarrow>
            nat (phys_page (t l2)) * PAGE_SIZE + off < RAM_SIZE) \<and>
         (\<forall>p. fst (translate s vaddr w) = Paddr p \<longrightarrow> unat p < RAM_SIZE)"
proof -
  from assms have inv: "frames_in_range s" by (rule reachable_frames_in_range)
  have 1: "fst (translate s vaddr w) \<noteq> InternalInconsistency"
    by (rule translate_not_inconsistent [OF inv])
  have 2: "nat (phys_page (t l2)) * PAGE_SIZE + off < RAM_SIZE"
    if "page_table s l1 = Some t \<and> l2 < L2_ENTRIES \<and> 0 \<le> phys_page (t l2) \<and> off < PAGE_SIZE"
    for l1 t l2 off
  proof -
    from that frames_in_range_entry [OF inv, of l1 t l2]
    have "phys_page (t l2) < 256" "0 \<le> phys_page (t l2)" "off < 4096"
      by (simp_all add: size_defs)
    then have "nat (phys_page (t l2)) \<le> 255" by linarith
    then have "nat (phys_page (t l2)) * 4096 \<le> 255 * 4096" by (rule mult_le_mono1)
    with \<open>off < 4096\<close> show ?thesis by (simp add: size_defs)
  qed
  have 3: "unat p < RAM_SIZE" if "fst (translate s vaddr w) = Paddr p" for p
    using that by (rule translate_paddr_in_store)
  from 1 2 3 show ?thesis by blast
qed

theorem internal_inconsistency_unreachable_witness:
  "reachable (exec (init_vm vm0) (MapPage 0 42 (PTE_READ OR PTE_WRITE) (Some junk_block))) \<and>
   fst (translate (exec (init_vm vm0) (MapPage 0 42 (PTE_READ OR PTE_WRITE) (Some junk_block)))
          0x510 False) \<noteq> InternalInconsistency \<and>
   (\<exists>p. fst (translate (exec (init_vm vm0) (MapPage 0 42 (PTE_READ OR PTE_WRITE) (Some junk_block)))
          0x510 False) = Paddr p \<and> unat p = 42 * 4096 + 0x510 \<and> unat p < RAM_SIZE)"
proof -
  let ?s = "exec (init_vm vm0) (MapPage 0 42 (PTE_READ OR PTE_WRITE) (Some junk_block))"
  have r: "reachable ?s"
    by (intro reachable_step reachable_init)
  note th = internal_inconsistency_unreachable [OF r, of "0x510" False]
  have m1: "map_page (init_vm vm0) 0 42 (PTE_READ OR PTE_WRITE) (Some junk_block) = (0, ?s)"
    by (simp add: map_page_in_range size_defs vm0_def init_vm_def allocate_L2_def)
  have pg: "vpage_of 0x510 < 256" and pz: "vpage_of 0x510 = unat (0 :: u16)"
    by (simp_all add: vpage_of_def size_defs)
  have e1: "entry_at ?s (vpage_of 0x510) =
      Some \<lparr>phys_page = uint (42 :: u16), flags = (PTE_READ OR PTE_WRITE) OR PTE_VALID\<rparr>"
    unfolding pz by (rule map_page_success(3) [OF m1])
  from translate_mapped [OF pg e1, of False] rw_valid_bits
  obtain pa where t: "translate ?s 0x510 False = (Paddr pa, ?s)"
    and pa: "unat pa = 42 * 4096 + 0x510" by auto
  from th t have "unat pa < RAM_SIZE" by simp
  with t pa have "\<exists>p. fst (translate ?s 0x510 False) = Paddr p \<and> unat p = 42 * 4096 + 0x510 \<and>
      unat p < RAM_SIZE" by simp
  with r th show ?thesis by blast
qed

section \<open>Out-of-range accesses and the page table\<close>

lemma write_vmem_oob:
  assumes "unat vaddr \<ge> RAM_SIZE"
    and "page_fault_handler (count_failure s) (ucast (drop_bit 12 vaddr)) m = (h, s2)"
  shows "write_vmem s vaddr b m = (-1, if h \<noteq> 0 then s2 else count_failure s2)"
  using assms by (simp add: write_vmem_def translate_oob finish_failed)

text \<open>
  The page number handed to the fault handler is \<open>vaddr >> 12\<close> cut to 16 bits. With
  page 5 mapped to frame 30, the out-of-range write at \<open>0x10005000\<close> therefore fails,
  but leaves page 5 mapped to the freshly zeroed frame 0 instead.
\<close>

lemma oob_write_remaps_page:
  "entry_at (snd (map_page vm0 5 30 (PTE_READ OR PTE_WRITE) (Some junk_block))) 5 =
     Some \<lparr>phys_page = 30, flags = 7\<rparr> \<and>
   fst (write_vmem (snd (map_page vm0 5 30 (PTE_READ OR PTE_WRITE) (Some junk_block)))
          0x10005000 0x11 None) = -1 \<and>
   entry_at (snd (write_vmem (snd (map_page vm0 5 30 (PTE_READ OR PTE_WRITE) (Some junk_block)))
          0x10005000 0x11 None)) 5 = Some \<lparr>phys_page = 0, flags = 7\<rparr>"
proof -
  let ?s1 = "snd (map_page vm0 5 30 (PTE_READ OR PTE_WRITE) (Some junk_block))"
  let ?vp = "ucast (drop_bit 12 (0x10005000 :: u32)) :: u16"
  have m1: "map_page vm0 5 30 (PTE_READ OR PTE_WRITE) (Some junk_block) = (0, ?s1)"
    by (simp add: map_page_in_range size_defs vm0_def allocate_L2_def)
  have e1: "entry_at ?s1 5 = Some \<lparr>phys_page = 30, flags = 7\<rparr>"
    using map_page_success(3) [OF m1] by (simp add: flag_defs)
  have pt: "page_table ?s1 0 \<noteq> None" and u: "\<not> phys_pages_used ?s1 0"
    by (simp_all add: map_page_in_range size_defs vm0_def allocate_L2_def)
  have vp: "?vp = 5" by simp
  have "\<exists>s2. page_fault_handler (count_failure ?s1) 5 None = (0, s2) \<and>
          entry_at s2 (unat (5 :: u16)) =
            Some \<lparr>phys_page = int 0, flags = (PTE_READ OR PTE_WRITE) OR PTE_VALID\<rparr> \<and>
          page_faults (stats s2) = page_faults (stats (count_failure ?s1)) + 1"
    by (rule page_fault_handler_ok) (use pt u in \<open>simp_all add: size_defs\<close>)
  then obtain s2 where h: "page_fault_handler (count_failure ?s1) ?vp None = (0, s2)"
    and e2: "entry_at s2 5 = Some \<lparr>phys_page = 0, flags = 7\<rparr>"
    unfolding vp by (auto simp add: flag_defs)
  have "write_vmem ?s1 0x10005000 0x11 None = (-1, if (0::int) \<noteq> 0 then s2 else count_failure s2)"
    by (rule write_vmem_oob [OF _ h]) (simp add: size_defs)
  then have w: "write_vmem ?s1 0x10005000 0x11 None = (-1, count_failure s2)" by simp
  have "entry_at (count_failure s2) 5 = entry_at s2 5" by (rule entry_at_cong) simp
  with e1 e2 w show ?thesis by simp
qed

end
